theory Spec2Isabelle
  imports Complex_Main
begin

section \<open>JavaScript values\<close>

text \<open>
  The component \<^verbatim>\<open>src/components/layouts/PieChart.js\<close> fetches a table of arms
  imports by region, turns the rows into one figure per region for the selected year and
  draws a pie chart with a legend and a tooltip. This theory embeds the data
  transformer, the legend, the nodes appended to the drawing surface, the handling of a
  failed request and the tooltip handlers, and proves the properties claimed of them.

  The component computes with JavaScript numbers, which are binary64 floating-point
  values. A number is modelled as not-a-number, an infinity, or a finite value held as the
  rational it denotes; every arithmetic operation rounds its exact result to the nearest
  double (see \<open>fl\<close> below). The sign of zero is not represented: the component never
  tells the two zeros apart (both are falsy for \<^verbatim>\<open>||\<close> and for \<^verbatim>\<open>d3.sum\<close>, and
  \<^verbatim>\<open>toFixed\<close> prints both without a sign).
\<close>

datatype jsnum = NaN | Fin rat | PInf | NInf

text \<open>A value read from a row object: a missing property, a string or a number.\<close>

datatype jsval = Undefined | Str string | Number jsnum

text \<open>Truthiness, as \<^verbatim>\<open>||\<close> tests it: zero and NaN are falsy, so are the empty
  string and \<^verbatim>\<open>undefined\<close>.\<close>

fun truthy_num :: "jsnum \<Rightarrow> bool" where
  "truthy_num NaN = False"
| "truthy_num (Fin x) = (x \<noteq> 0)"
| "truthy_num PInf = True"
| "truthy_num NInf = True"

fun truthy :: "jsval \<Rightarrow> bool" where
  "truthy Undefined = False"
| "truthy (Str s) = (s \<noteq> [])"
| "truthy (Number n) = truthy_num n"

text \<open>
  Rounding to a double. \<open>bits n\<close> is the length of a positive \<open>n\<close> in binary, and for a positive
  \<open>x\<close> the exponent \<open>ilog2 x\<close> is the largest power of two that is at most \<open>x\<close>. A
  double has 53 significant bits, so the doubles around \<open>x\<close> are the multiples of two to
  the power \<open>ilog2 \<bar>x\<bar> - 52\<close>, or the multiples of the smallest positive double, two to
  the power \<open>- 1074\<close>, when that is larger (the subnormal range). \<open>nearest x\<close> is the
  multiple closest to \<open>x\<close>, the one with the even multiplier on a tie, and \<open>fl x\<close> is the
  number that an operation with the exact result \<open>x\<close> returns: an infinity when the
  rounded magnitude reaches two to the power 1024.
\<close>

function bits :: "int \<Rightarrow> nat" where
  "bits n = (if n \<le> 0 then 0 else Suc (bits (n div 2)))"
  by pat_completeness auto

termination
  by (relation "measure nat") auto

declare bits.simps [simp del]

definition ilog2 :: "rat \<Rightarrow> int" where
  "ilog2 x = (if 1 \<le> x then int (bits \<lfloor>x\<rfloor>) - 1
              else - int (bits (\<lceil>1 / x\<rceil> - 1)))"

definition round_half_even :: "rat \<Rightarrow> int" where
  "round_half_even x =
     (let n = \<lfloor>x\<rfloor>; r = x - of_int n
      in if r < 1 / 2 then n else if 1 / 2 < r then n + 1 else if even n then n else n + 1)"

definition emin :: int where
  "emin = - 1074"

definition min_subnormal :: rat where
  "min_subnormal = 2 powi emin"

definition overflow_threshold :: rat where
  "overflow_threshold = 2 ^ 1024"

definition ulp_exp :: "rat \<Rightarrow> int" where
  "ulp_exp x = max (ilog2 \<bar>x\<bar> - 52) emin"

definition nearest :: "rat \<Rightarrow> rat" where
  "nearest x = of_int (round_half_even (x / 2 powi ulp_exp x)) * 2 powi ulp_exp x"

definition fl :: "rat \<Rightarrow> jsnum" where
  "fl x = (let y = nearest x
           in if overflow_threshold \<le> y then PInf
              else if y \<le> - overflow_threshold then NInf else Fin y)"

text \<open>The operators \<^verbatim>\<open>+\<close>, \<^verbatim>\<open>*\<close> and \<^verbatim>\<open>/\<close> on numbers. A zero divisor is
  taken as positive zero.\<close>

fun jsadd :: "jsnum \<Rightarrow> jsnum \<Rightarrow> jsnum" where
  "jsadd NaN b = NaN"
| "jsadd a NaN = NaN"
| "jsadd (Fin a) (Fin b) = fl (a + b)"
| "jsadd (Fin a) b = b"
| "jsadd a (Fin b) = a"
| "jsadd PInf PInf = PInf"
| "jsadd NInf NInf = NInf"
| "jsadd PInf NInf = NaN"
| "jsadd NInf PInf = NaN"

fun jsneg :: "jsnum \<Rightarrow> jsnum" where
  "jsneg NaN = NaN"
| "jsneg (Fin a) = Fin (- a)"
| "jsneg PInf = NInf"
| "jsneg NInf = PInf"

fun jsmul :: "jsnum \<Rightarrow> jsnum \<Rightarrow> jsnum" where
  "jsmul NaN b = NaN"
| "jsmul a NaN = NaN"
| "jsmul (Fin a) (Fin b) = fl (a * b)"
| "jsmul (Fin a) b = (if a = 0 then NaN else if 0 < a then b else jsneg b)"
| "jsmul a (Fin b) = (if b = 0 then NaN else if 0 < b then a else jsneg a)"
| "jsmul PInf b = b"
| "jsmul NInf b = jsneg b"

fun jsdiv :: "jsnum \<Rightarrow> jsnum \<Rightarrow> jsnum" where
  "jsdiv NaN b = NaN"
| "jsdiv a NaN = NaN"
| "jsdiv (Fin a) (Fin b) =
     (if b \<noteq> 0 then fl (a / b)
      else if a = 0 then NaN else if 0 < a then PInf else NInf)"
| "jsdiv (Fin a) b = Fin 0"
| "jsdiv a (Fin b) = (if 0 \<le> b then a else jsneg a)"
| "jsdiv a b = NaN"

text \<open>
  Unary plus on a string is the runtime's string-to-number conversion. It is not code of
  the component, so every function below that converts takes it as the parameter
  \<open>toNumber\<close>. On a value that is already a number unary plus is the identity, and
  \<^verbatim>\<open>undefined\<close> converts to NaN.
\<close>

fun to_number :: "(string \<Rightarrow> jsnum) \<Rightarrow> jsval \<Rightarrow> jsnum" where
  "to_number toNumber Undefined = NaN"
| "to_number toNumber (Str s) = toNumber s"
| "to_number toNumber (Number n) = n"

text \<open>\<^verbatim>\<open>v || 0\<close>.\<close>

definition or_zero :: "jsval \<Rightarrow> jsval" where
  "or_zero v = (if truthy v then v else Number (Fin 0))"

section \<open>Rows\<close>

text \<open>
  A row is an object whose properties are the CSV columns. Reading a property that the
  object does not have gives \<^verbatim>\<open>undefined\<close>; assigning \<^verbatim>\<open>d[k] = v\<close> is the
  function update \<open>d(k := v)\<close>.
\<close>

type_synonym row = "string \<Rightarrow> jsval"

text \<open>The property key of a year: the decimal digits of the number.\<close>

definition digit_char :: "nat \<Rightarrow> char" where
  "digit_char n = char_of (48 + n)"

fun digits :: "nat \<Rightarrow> string" where
  "digits n = (if n < 10 then [digit_char n] else digits (n div 10) @ [digit_char (n mod 10)])"

declare digits.simps [simp del]

text \<open>Reading decimal digits back, used to tell the keys of different years apart and
  by the example conversion below.\<close>

definition digit_val :: "char \<Rightarrow> nat" where
  "digit_val c = of_char c - 48"

definition digits_val :: "string \<Rightarrow> nat" where
  "digits_val s = fold (\<lambda>c n. 10 * n + digit_val c) s 0"

definition yearKey :: "nat \<Rightarrow> string" where
  "yearKey year = digits year"

definition regionKey :: string where
  "regionKey = ''Imports by Regions''"

section \<open>The data transformer\<close>

text \<open>
  \<^verbatim>\<open>d[year] = +d[year] / 1000 || 0\<close>, for one year.
\<close>

definition scaleCell :: "(string \<Rightarrow> jsnum) \<Rightarrow> jsval \<Rightarrow> jsval" where
  "scaleCell toNumber v = or_zero (Number (jsdiv (to_number toNumber v) (Fin 1000)))"

definition setYear :: "(string \<Rightarrow> jsnum) \<Rightarrow> nat \<Rightarrow> row \<Rightarrow> row" where
  "setYear toNumber year d = d(yearKey year := scaleCell toNumber (d (yearKey year)))"

text \<open>\<^verbatim>\<open>for (let year = 1950; year <= 2023; year++) ...\<close> on one row, and
  \<^verbatim>\<open>data.forEach\<close> on all rows.\<close>

definition transformRow :: "(string \<Rightarrow> jsnum) \<Rightarrow> row \<Rightarrow> row" where
  "transformRow toNumber d = fold (setYear toNumber) [1950 ..< 2024] d"

definition forEachRow :: "(string \<Rightarrow> jsnum) \<Rightarrow> row list \<Rightarrow> row list" where
  "forEachRow toNumber data = map (transformRow toNumber) data"

text \<open>\<^verbatim>\<open>data.filter(d => d['Imports by Regions'] !== 'World total' &&
  d['Imports by Regions'] !== 'International organizations')\<close>\<close>

definition filteredData :: "row list \<Rightarrow> row list" where
  "filteredData data =
     filter (\<lambda>d. d regionKey \<noteq> Str ''World total''
                \<and> d regionKey \<noteq> Str ''International organizations'') data"

text \<open>
  \<^verbatim>\<open>d3.group(values, keyof)\<close> builds a map that keeps its keys in the order of
  their first insertion: a value whose key is already there is pushed onto that key's
  array, any other value starts a new array. A group is therefore never empty, and it is
  kept as its first element and the elements after it.
\<close>

fun group_add :: "'k \<Rightarrow> 'a \<Rightarrow> ('k \<times> 'a \<times> 'a list) list \<Rightarrow> ('k \<times> 'a \<times> 'a list) list" where
  "group_add k v [] = [(k, v, [])]"
| "group_add k v ((k', first, others) # g) =
     (if k' = k then (k', first, others @ [v]) # g
      else (k', first, others) # group_add k v g)"

definition d3_group :: "'a list \<Rightarrow> ('a \<Rightarrow> 'k) \<Rightarrow> ('k \<times> 'a \<times> 'a list) list" where
  "d3_group vs keyof = fold (\<lambda>v g. group_add (keyof v) v g) vs []"

record regionDatum =
  region :: jsval
  armsTrade :: jsval

text \<open>\<^verbatim>\<open>Array.from(d3.group(filteredData, d => d['Imports by Regions']),
  ([region, values]) => ({ region, armsTrade: values[0][selectedYear] || 0 }))\<close>\<close>

definition regionArmsData :: "nat \<Rightarrow> row list \<Rightarrow> regionDatum list" where
  "regionArmsData selectedYear rows =
     map (\<lambda>(r, first, others).
            \<lparr>region = r, armsTrade = or_zero (first (yearKey selectedYear))\<rparr>)
         (d3_group rows (\<lambda>d. d regionKey))"

text \<open>The transformer as a whole: unit conversion, exclusion, grouping.\<close>

definition transformer :: "(string \<Rightarrow> jsnum) \<Rightarrow> nat \<Rightarrow> row list \<Rightarrow> regionDatum list" where
  "transformer toNumber selectedYear data =
     regionArmsData selectedYear (filteredData (forEachRow toNumber data))"

text \<open>
  \<^verbatim>\<open>d3.sum(values, valueof)\<close> starts from 0 and adds every value whose conversion
  to a number is truthy.
\<close>

definition d3_sum :: "(string \<Rightarrow> jsnum) \<Rightarrow> 'a list \<Rightarrow> ('a \<Rightarrow> jsval) \<Rightarrow> jsnum" where
  "d3_sum toNumber vs valueof =
     fold (\<lambda>v s. let value = to_number toNumber (valueof v)
                 in if truthy_num value then jsadd s value else s) vs (Fin 0)"

definition totalOf :: "(string \<Rightarrow> jsnum) \<Rightarrow> regionDatum list \<Rightarrow> jsnum" where
  "totalOf toNumber regionData = d3_sum toNumber regionData armsTrade"

section \<open>Percentages and colours\<close>

text \<open>
  \<^verbatim>\<open>toFixed(f)\<close> returns text. The model keeps that text as the data that determine
  it: \<open>TFixed neg n f\<close> is the sign, then the digits of \<open>n\<close> with the last \<open>f\<close> of
  them after the decimal point, where \<open>n\<close> is the integer for which \<open>n / 10 ^ f\<close> is
  closest to the magnitude, the larger one on a tie. A magnitude of \<open>10 ^ 21\<close> or more is
  printed by the general number-to-string conversion instead, without rounding to
  \<open>f\<close> digits. \<open>text_value\<close> is the decimal number that such a text writes; the texts
  \<^verbatim>\<open>NaN\<close> and \<^verbatim>\<open>Infinity\<close> write none.
\<close>

datatype numtext = TNaN | TInfinity bool | TFixed bool nat nat | TGeneral rat

fun toFixed :: "nat \<Rightarrow> jsnum \<Rightarrow> numtext" where
  "toFixed f NaN = TNaN"
| "toFixed f PInf = TInfinity False"
| "toFixed f NInf = TInfinity True"
| "toFixed f (Fin v) =
     (if 10 ^ 21 \<le> \<bar>v\<bar> then TGeneral v
      else TFixed (v < 0) (nat \<lfloor>\<bar>v\<bar> * 10 ^ f + 1 / 2\<rfloor>) f)"

fun text_value :: "numtext \<Rightarrow> rat option" where
  "text_value TNaN = None"
| "text_value (TInfinity neg) = None"
| "text_value (TFixed neg n f) = Some ((if neg then - 1 else 1) * (of_nat n / 10 ^ f))"
| "text_value (TGeneral v) = Some v"

text \<open>\<^verbatim>\<open>(d.armsTrade / totalArmsTrade) * 100\<close>\<close>

definition percent :: "(string \<Rightarrow> jsnum) \<Rightarrow> jsnum \<Rightarrow> regionDatum \<Rightarrow> jsnum" where
  "percent toNumber t d =
     jsmul (jsdiv (to_number toNumber (armsTrade d)) t) (Fin 100)"

text \<open>
  \<^verbatim>\<open>d3.scaleOrdinal(d3.schemeCategory10)\<close>: the scale remembers the keys it has been
  asked about in the order it first saw them, and gives the key at position \<open>i\<close> the
  colour \<open>i mod 10\<close> of the palette. The scale is created anew in every run of the
  callback, so its domain starts empty each time.
\<close>

definition schemeCategory10 :: "string list" where
  "schemeCategory10 =
     [''#1f77b4'', ''#ff7f0e'', ''#2ca02c'', ''#d62728'', ''#9467bd'',
      ''#8c564b'', ''#e377c2'', ''#7f7f7f'', ''#bcbd22'', ''#17becf'']"

fun index_of :: "'a \<Rightarrow> 'a list \<Rightarrow> nat option" where
  "index_of d [] = None"
| "index_of d (e # es) = (if e = d then Some 0 else map_option Suc (index_of d es))"

definition colorScale :: "jsval list \<Rightarrow> jsval \<Rightarrow> string \<times> jsval list" where
  "colorScale domain d =
     (case index_of d domain of
        Some i \<Rightarrow> (schemeCategory10 ! (i mod length schemeCategory10), domain)
      | None \<Rightarrow> (schemeCategory10 ! (length domain mod length schemeCategory10), domain @ [d]))"

text \<open>The colour of a key that is in the domain.\<close>

definition color_at :: "jsval list \<Rightarrow> jsval \<Rightarrow> string" where
  "color_at domain k = schemeCategory10 ! (the (index_of k domain) mod length schemeCategory10)"

text \<open>The scale applied to a sequence of keys, one call after the other.\<close>

fun colorScale_each :: "jsval list \<Rightarrow> jsval list \<Rightarrow> string list \<times> jsval list" where
  "colorScale_each domain [] = ([], domain)"
| "colorScale_each domain (d # ds) =
     (let (c, domain') = colorScale domain d;
          (cs, domain'') = colorScale_each domain' ds
      in (c # cs, domain''))"

record legendEntry = regionDatum +
  color :: string
  percentage :: numtext

text \<open>\<^verbatim>\<open>regionArmsData.map(d => ({ region: d.region, color: colorScale(d.region),
  percentage: ((d.armsTrade / totalArmsTrade) * 100).toFixed(2), armsTrade: d.armsTrade }))\<close>\<close>

definition legendEntryOf :: "(string \<Rightarrow> jsnum) \<Rightarrow> jsnum \<Rightarrow> regionDatum \<Rightarrow> string \<Rightarrow> legendEntry" where
  "legendEntryOf toNumber t d c =
     \<lparr>region = region d, armsTrade = armsTrade d, color = c,
      percentage = toFixed 2 (percent toNumber t d)\<rparr>"

definition legendInfo :: "(string \<Rightarrow> jsnum) \<Rightarrow> jsnum \<Rightarrow> regionDatum list \<Rightarrow> legendEntry list \<times> jsval list" where
  "legendInfo toNumber t regionData =
     (let (colors, domain) = colorScale_each [] (map region regionData)
      in (map2 (legendEntryOf toNumber t) regionData colors, domain))"

section \<open>The drawing surface and the component state\<close>

text \<open>
  The children of the \<^verbatim>\<open>svg\<close> element. A text node has attributes and a content; the
  content of a slice label is the \<^verbatim>\<open>toFixed(1)\<close> text of a percentage followed by
  \<^verbatim>\<open>%\<close>. A path carries its attributes and the datum bound to it. The geometry that
  \<^verbatim>\<open>d3.pie\<close> and \<^verbatim>\<open>d3.arc\<close> compute (the \<^verbatim>\<open>d\<close> attribute of a path and the
  centroid at which a label sits) is floating-point trigonometry and is left out.
\<close>

datatype text_content = Lit string | Pct numtext

datatype node =
    Text "(string \<times> string) list" text_content
  | Path "(string \<times> string) list" regionDatum
  | G string "node list"

fun has_path :: "node \<Rightarrow> bool" where
  "has_path (Text attrs t) = False"
| "has_path (Path attrs d) = True"
| "has_path (G transform children) = list_ex has_path children"

text \<open>The tooltip state \<^verbatim>\<open>{ visible, x, y, content }\<close>; the fields \<^verbatim>\<open>x\<close> and
  \<^verbatim>\<open>y\<close> are named \<open>tooltip_x\<close> and \<open>tooltip_y\<close> here.\<close>

record tooltip_state =
  visible :: bool
  tooltip_x :: rat
  tooltip_y :: rat
  content :: string

text \<open>
  What a run of the effect can change: the children of the drawing surface, the three
  pieces of component state, the lines written by \<^verbatim>\<open>console.error\<close> and the URLs
  requested with \<^verbatim>\<open>d3.csv\<close>. The width and height set on the \<^verbatim>\<open>svg\<close> element
  itself are constants and are not kept.
\<close>

record ui =
  svg :: "node list"
  tooltip :: tooltip_state
  legendData :: "legendEntry list"
  totalArmsTrade :: jsnum
  console :: "(string \<times> string) list"
  requests :: "string list"

definition dataUrl :: string where
  "dataUrl = ''https://raw.githubusercontent.com/nguyenlamvu88/dsci_554_arms_sales_project/main/data/processed/processed_regional_transfers.csv''"

text \<open>The \<^verbatim>\<open>useState\<close> initial values, with an empty surface.\<close>

definition initial_ui :: ui where
  "initial_ui =
     \<lparr>svg = [], tooltip = \<lparr>visible = False, tooltip_x = 0, tooltip_y = 0, content = []\<rparr>,
      legendData = [], totalArmsTrade = Fin 0, console = [], requests = []\<rparr>"

text \<open>\<^verbatim>\<open>svg.selectAll('*').remove()\<close> followed by the title, appended before the data
  is requested.\<close>

definition title :: "nat \<Rightarrow> node" where
  "title selectedYear =
     Text [(''x'', ''250''), (''y'', ''30''), (''text-anchor'', ''middle''),
           (''font-size'', ''20px''), (''font-weight'', ''bold''), (''fill'', ''#0db4de'')]
          (Lit (''Arms Imports by Region ('' @ yearKey selectedYear @ '')''))"

definition placeholder :: node where
  "placeholder =
     Text [(''x'', ''250''), (''y'', ''300''), (''text-anchor'', ''middle'')]
          (Lit ''No data available for this year'')"

definition slice :: "regionDatum \<Rightarrow> string \<Rightarrow> node" where
  "slice d fill = Path [(''fill'', fill), (''stroke'', ''white''), (''opacity'', ''0.85'')] d"

definition sliceLabel :: "(string \<Rightarrow> jsnum) \<Rightarrow> jsnum \<Rightarrow> regionDatum \<Rightarrow> node" where
  "sliceLabel toNumber t d =
     Text [(''text-anchor'', ''middle''), (''font-size'', ''12px''), (''pointer-events'', ''none'')]
          (Pct (toFixed 1 (percent toNumber t d)))"

text \<open>
  The callback given to \<^verbatim>\<open>then\<close>: it runs when the rows have arrived. With a zero
  total it appends the placeholder and returns; otherwise it stores the legend and
  appends the group of slices and the group of labels.
\<close>

definition then_callback :: "(string \<Rightarrow> jsnum) \<Rightarrow> nat \<Rightarrow> row list \<Rightarrow> ui \<Rightarrow> ui" where
  "then_callback toNumber selectedYear data u =
     (let regionData = transformer toNumber selectedYear data;
          t = totalOf toNumber regionData;
          u1 = u\<lparr>totalArmsTrade := t\<rparr>
      in if t = Fin 0 then u1\<lparr>svg := svg u1 @ [placeholder]\<rparr>
         else
           let (entries, domain) = legendInfo toNumber t regionData;
               u2 = u1\<lparr>legendData := entries\<rparr>;
               (fills, domain') = colorScale_each domain (map region regionData)
           in u2\<lparr>svg := svg u2 @
                  [G ''translate(250, 300)'' (map2 slice regionData fills),
                   G ''translate(250, 300)'' (map (sliceLabel toNumber t) regionData)]\<rparr>)"

text \<open>The callback given to \<^verbatim>\<open>catch\<close>.\<close>

definition catch_callback :: "string \<Rightarrow> ui \<Rightarrow> ui" where
  "catch_callback error u = u\<lparr>console := console u @ [(''Error loading data:'', error)]\<rparr>"

text \<open>
  One run of the effect for a selected year. The request either resolves with the parsed
  rows or is rejected with an error (a network failure or a parse failure), and the
  matching callback then runs on the state that the synchronous part left. A run whose
  request is still pending when the next run starts is not modelled.
\<close>

datatype fetched = Resolved "row list" | Rejected string

definition useEffect :: "(string \<Rightarrow> jsnum) \<Rightarrow> nat \<Rightarrow> fetched \<Rightarrow> ui \<Rightarrow> ui" where
  "useEffect toNumber selectedYear response u =
     (let u1 = u\<lparr>svg := [title selectedYear], requests := requests u @ [dataUrl]\<rparr>
      in case response of
           Resolved data \<Rightarrow> then_callback toNumber selectedYear data u1
         | Rejected error \<Rightarrow> catch_callback error u1)"

section \<open>The tooltip\<close>

record mouse_event =
  pageX :: rat
  pageY :: rat

text \<open>
  The three pointer handlers of a slice, as updates of the tooltip state. The text that
  \<^verbatim>\<open>mouseenter\<close> builds from the datum uses locale-dependent number formatting and is
  passed in. The 200ms transitions that \<^verbatim>\<open>mouseenter\<close> and \<^verbatim>\<open>mouseleave\<close> start on
  the path (its outline and opacity) are animation and are left out; \<^verbatim>\<open>mousemove\<close>
  starts none.
\<close>

definition mouseenter :: "string \<Rightarrow> mouse_event \<Rightarrow> tooltip_state \<Rightarrow> tooltip_state" where
  "mouseenter text event prev =
     \<lparr>visible = True, tooltip_x = pageX event, tooltip_y = pageY event, content = text\<rparr>"

definition mousemove :: "mouse_event \<Rightarrow> tooltip_state \<Rightarrow> tooltip_state" where
  "mousemove event prev = prev\<lparr>tooltip_x := pageX event + 10, tooltip_y := pageY event + 10\<rparr>"

text \<open>\<^verbatim>\<open>setTooltip(f)\<close> replaces the tooltip state by \<open>f\<close> of the previous one.\<close>

definition setTooltip :: "(tooltip_state \<Rightarrow> tooltip_state) \<Rightarrow> ui \<Rightarrow> ui" where
  "setTooltip f u = u\<lparr>tooltip := f (tooltip u)\<rparr>"

definition mouseleave :: "mouse_event \<Rightarrow> tooltip_state \<Rightarrow> tooltip_state" where
  "mouseleave event prev = \<lparr>visible = False, tooltip_x = 0, tooltip_y = 0, content = []\<rparr>"

text \<open>The tooltip element of the returned tree:
  \<^verbatim>\<open>tooltip.visible && <div style={{ top: tooltip.y + 10, left: tooltip.x + 10 }}>\<close>.\<close>

record tooltip_div =
  top :: rat
  left :: rat
  div_text :: string

definition render_tooltip :: "tooltip_state \<Rightarrow> tooltip_div option" where
  "render_tooltip t =
     (if visible t
      then Some \<lparr>top = tooltip_y t + 10, left = tooltip_x t + 10, div_text = content t\<rparr>
      else None)"

section \<open>Observations used in the statements\<close>

text \<open>The sum of the percentages shown in a legend: each text is read as the decimal
  number it writes and the numbers are added exactly. There is no sum when one of the
  texts writes no number.\<close>

fun add_text :: "numtext \<Rightarrow> rat option \<Rightarrow> rat option" where
  "add_text p None = None"
| "add_text p (Some s) = (case text_value p of None \<Rightarrow> None | Some v \<Rightarrow> Some (s + v))"

definition percentage_sum :: "legendEntry list \<Rightarrow> rat option" where
  "percentage_sum entries = fold (\<lambda>e s. add_text (percentage e) s) entries (Some 0)"

text \<open>\<^verbatim>\<open>v >= 0\<close> on a number, and \<^verbatim>\<open>v < 0\<close>.\<close>

fun nonneg :: "jsnum \<Rightarrow> bool" where
  "nonneg (Fin v) = (0 \<le> v)"
| "nonneg PInf = True"
| "nonneg n = False"

fun negative :: "jsnum \<Rightarrow> bool" where
  "negative (Fin v) = (v < 0)"
| "negative NInf = True"
| "negative n = False"

text \<open>The region labels of a legend with the colour given to each.\<close>

definition legend_colors :: "legendEntry list \<Rightarrow> (jsval \<times> string) list" where
  "legend_colors entries = map (\<lambda>e. (region e, color e)) entries"

text \<open>The region labels of the slices on a surface with the fill of each.\<close>

fun path_colors :: "node \<Rightarrow> (jsval \<times> string) list" where
  "path_colors (Text attrs t) = []"
| "path_colors (Path attrs d) =
     (case map_of attrs ''fill'' of None \<Rightarrow> [] | Some c \<Rightarrow> [(region d, c)])"
| "path_colors (G transform children) = concat (map path_colors children)"

definition slice_colors :: "node list \<Rightarrow> (jsval \<times> string) list" where
  "slice_colors nodes = concat (map path_colors nodes)"

text \<open>The finite value of a number, 0 when it has none.\<close>

fun fin_of :: "jsnum \<Rightarrow> rat" where
  "fin_of (Fin v) = v"
| "fin_of n = 0"

text \<open>The distinct region labels of the rows that are not excluded, in the order of their
  first occurrence.\<close>

definition region_labels :: "row list \<Rightarrow> jsval list" where
  "region_labels data =
     fold (\<lambda>d ls. if d regionKey \<in> set ls then ls else ls @ [d regionKey]) (filteredData data) []"

text \<open>The colour that a list of labels with their colours gives to a label.\<close>

definition color_of :: "(jsval \<times> string) list \<Rightarrow> jsval \<Rightarrow> string option" where
  "color_of colors r = map_of colors r"

text \<open>The multiples of the smallest positive double: every finite double is one.\<close>

definition is_grid :: "rat \<Rightarrow> bool" where
  "is_grid x = (of_int \<lfloor>x / min_subnormal\<rfloor> = x / min_subnormal)"

section \<open>Example inputs\<close>

text \<open>
  The examples need a concrete string-to-number conversion. \<open>stringToNumber\<close> follows
  the runtime's conversion on 7-bit text: white space is trimmed, the empty string is 0,
  then a signed decimal literal with optional fraction and exponent, \<^verbatim>\<open>Infinity\<close>, or
  an unsigned hexadecimal, octal or binary literal; anything else is NaN. The value that
  a literal writes is rounded to the nearest double. The general theorems are stated for
  an arbitrary conversion and do not depend on it.
\<close>

definition is_digit :: "char \<Rightarrow> bool" where
  "is_digit c = (48 \<le> (of_char c :: nat) \<and> (of_char c :: nat) \<le> 57)"

definition is_space :: "char \<Rightarrow> bool" where
  "is_space c = ((of_char c :: nat) \<in> {9, 10, 11, 12, 13, 32})"

definition trim :: "string \<Rightarrow> string" where
  "trim s = rev (dropWhile is_space (rev (dropWhile is_space s)))"

definition scale10 :: "rat \<Rightarrow> int \<Rightarrow> rat" where
  "scale10 m e = (if 0 \<le> e then m * 10 ^ nat e else m / 10 ^ nat (- e))"

definition signedDigits :: "int \<Rightarrow> string \<Rightarrow> int option" where
  "signedDigits sign ds =
     (if ds \<noteq> [] \<and> list_all is_digit ds then Some (sign * int (digits_val ds)) else None)"

definition exponentPart :: "string \<Rightarrow> int option" where
  "exponentPart s =
     (case s of
        [] \<Rightarrow> Some 0
      | c # r \<Rightarrow>
          if c = CHR ''e'' \<or> c = CHR ''E'' then
            (case r of
               [] \<Rightarrow> None
             | sg # ds \<Rightarrow>
                 if sg = CHR ''+'' then signedDigits 1 ds
                 else if sg = CHR ''-'' then signedDigits (- 1) ds
                 else signedDigits 1 r)
          else None)"

definition unsignedDecimal :: "string \<Rightarrow> jsnum" where
  "unsignedDecimal s =
     (if s = ''Infinity'' then PInf
      else
        let ip = takeWhile is_digit s;
            r = dropWhile is_digit s;
            (fp, r') = (case r of
                          [] \<Rightarrow> ([], [])
                        | c # t \<Rightarrow> if c = CHR ''.''
                                   then (takeWhile is_digit t, dropWhile is_digit t)
                                   else ([], r))
        in if ip = [] \<and> fp = [] then NaN
           else case exponentPart r' of
                  None \<Rightarrow> NaN
                | Some e \<Rightarrow>
                    fl (scale10 (of_nat (digits_val ip) + of_nat (digits_val fp) / 10 ^ length fp) e))"

definition radix_digit :: "char \<Rightarrow> nat" where
  "radix_digit c =
     (let n = (of_char c :: nat)
      in if 48 \<le> n \<and> n \<le> 57 then n - 48
         else if 65 \<le> n \<and> n \<le> 70 then n - 55
         else if 97 \<le> n \<and> n \<le> 102 then n - 87
         else 16)"

definition radixLiteral :: "string \<Rightarrow> jsnum option" where
  "radixLiteral s =
     (case s of
        z # p # ds \<Rightarrow>
          let b = (if p = CHR ''x'' \<or> p = CHR ''X'' then 16
                   else if p = CHR ''o'' \<or> p = CHR ''O'' then 8
                   else if p = CHR ''b'' \<or> p = CHR ''B'' then 2 else (0::nat))
          in if z = CHR ''0'' \<and> b \<noteq> 0 \<and> ds \<noteq> [] \<and> list_all (\<lambda>c. radix_digit c < b) ds
             then Some (fl (of_nat (fold (\<lambda>c n. b * n + radix_digit c) ds 0)))
             else None
      | _ \<Rightarrow> None)"

definition stringToNumber :: "string \<Rightarrow> jsnum" where
  "stringToNumber s =
     (let t = trim s
      in case t of
           [] \<Rightarrow> Fin 0
         | c # r \<Rightarrow>
             (case radixLiteral t of
                Some n \<Rightarrow> n
              | None \<Rightarrow>
                  if c = CHR ''+'' then unsignedDecimal r
                  else if c = CHR ''-'' then jsneg (unsignedDecimal r)
                  else unsignedDecimal t))"

text \<open>The object that \<^verbatim>\<open>d3.csv\<close> makes of one line: each column name with its text.\<close>

definition csvRow :: "(string \<times> string) list \<Rightarrow> row" where
  "csvRow cells = (\<lambda>k. case map_of cells k of None \<Rightarrow> Undefined | Some s \<Rightarrow> Str s)"

text \<open>
  A small table: Europe appears twice, the aggregate row is present, and the 2021 column
  holds a word for Europe and is missing in the other rows.
\<close>

definition europe1 :: row where
  "europe1 = csvRow [(''Imports by Regions'', ''Europe''), (''2019'', ''4000''),
                       (''2020'', ''5000''), (''2021'', ''n/a'')]"

definition asia :: row where
  "asia = csvRow [(''Imports by Regions'', ''Asia''), (''2019'', ''6000''), (''2020'', ''3000'')]"

definition world :: row where
  "world = csvRow [(''Imports by Regions'', ''World total''), (''2020'', ''10000'')]"

definition europe2 :: row where
  "europe2 = csvRow [(''Imports by Regions'', ''Europe''), (''2020'', ''2000'')]"

definition table :: "row list" where
  "table = [europe1, asia, world, europe2]"

text \<open>A row with a negative figure, and the same two regions in both orders.\<close>

definition deficit :: row where
  "deficit = csvRow [(''Imports by Regions'', ''Europe''), (''2020'', ''-5000'')]"

definition europe_first :: "row list" where
  "europe_first = [europe1, asia]"

definition asia_first :: "row list" where
  "asia_first = [asia, europe1]"

text \<open>Thirty-one regions, "Region 1" to "Region 31", each with the figure 1000 for 2020.\<close>

definition region_row :: "nat \<Rightarrow> row" where
  "region_row i = csvRow [(''Imports by Regions'', ''Region '' @ digits i), (''2020'', ''1000'')]"

definition many_rows :: "row list" where
  "many_rows = map region_row [1 ..< 32]"

section \<open>Rounding\<close>

subsection \<open>Bit length\<close>

lemma bits_pos: "0 < n \<Longrightarrow> 0 < bits n"
  by (subst bits.simps) simp

lemma bits_bounds: "0 < n \<Longrightarrow> 2 ^ (bits n - 1) \<le> n \<and> n < 2 ^ bits n"
proof (induction n rule: bits.induct)
  case (1 n)
  have b: "bits n = Suc (bits (n div 2))" using "1.prems" by (subst bits.simps) simp
  show ?case
  proof (cases "n div 2 \<le> 0")
    case True
    then have "n = 1" using "1.prems" by presburger
    moreover have "bits (n div 2) = 0" using True by (subst bits.simps) simp
    ultimately show ?thesis using b by simp
  next
    case False
    then have pos: "0 < n div 2" by simp
    have ih: "2 ^ (bits (n div 2) - 1) \<le> n div 2 \<and> n div 2 < 2 ^ bits (n div 2)"
      using "1.IH" "1.prems" pos by simp
    obtain c where c: "bits (n div 2) = Suc c" using bits_pos [OF pos] by (cases "bits (n div 2)") auto
    have lo: "2 ^ Suc c \<le> n"
    proof -
      have "(2::int) ^ c \<le> n div 2" using ih c by simp
      then have "2 * (2::int) ^ c \<le> 2 * (n div 2)" by simp
      also have "\<dots> \<le> n" by presburger
      finally show ?thesis by simp
    qed
    have hi: "n < 2 ^ Suc (Suc c)"
    proof -
      have "n div 2 < 2 ^ Suc c" using ih c by simp
      then have "n div 2 + 1 \<le> 2 ^ Suc c" by simp
      then have "2 * (n div 2) + 2 \<le> 2 * 2 ^ Suc c" by simp
      moreover have "n \<le> 2 * (n div 2) + 1" by presburger
      ultimately show ?thesis by simp
    qed
    show ?thesis using lo hi b c by simp
  qed
qed

subsection \<open>Binary logarithm\<close>

lemma ilog2_bounds:
  assumes "0 < x"
  shows "2 powi ilog2 x \<le> x \<and> x < 2 powi (ilog2 x + 1)"
proof (cases "1 \<le> x")
  case True
  define n where "n = \<lfloor>x\<rfloor>"
  have "1 \<le> n" using True by (simp add: n_def le_floor_iff)
  then have npos: "0 < n" by simp
  obtain c where c: "bits n = Suc c" using bits_pos [OF npos] by (cases "bits n") auto
  have bb: "2 ^ c \<le> n" "n < 2 ^ Suc c" using bits_bounds [OF npos] c by simp_all
  have il: "ilog2 x = int c" using True c by (simp add: ilog2_def n_def)
  have nx: "(of_int n :: rat) \<le> x" by (simp add: n_def)
  have xn: "x < of_int n + 1" using floor_correct [of x] by (simp add: n_def)
  have "(of_int (2 ^ c) :: rat) \<le> of_int n" using bb(1) by (simp only: of_int_le_iff)
  then have "(2::rat) ^ c \<le> of_int n" by simp
  then have "(2::rat) ^ c \<le> x" using nx by linarith
  then have lo: "2 powi ilog2 x \<le> x" by (simp add: il)
  have "n + 1 \<le> 2 ^ Suc c" using bb(2) by simp
  then have "(of_int (n + 1) :: rat) \<le> of_int (2 ^ Suc c)" by (simp only: of_int_le_iff)
  then have "(of_int n :: rat) + 1 \<le> 2 ^ Suc c" by simp
  then have "x < 2 ^ Suc c" using xn by linarith
  moreover have "ilog2 x + 1 = int (Suc c)" using il by simp
  ultimately have hi: "x < 2 powi (ilog2 x + 1)" by (simp only: power_int_of_nat)
  from lo hi show ?thesis ..
next
  case False
  then have x1: "x < 1" by simp
  define z where "z = \<lceil>1 / x\<rceil>"
  define m where "m = z - 1"
  have inv1: "1 < 1 / x" using assms x1 by simp
  have z2: "2 \<le> z" using inv1 by (simp add: z_def le_ceiling_iff)
  then have mpos: "0 < m" by (simp add: m_def)
  obtain c where c: "bits m = Suc c" using bits_pos [OF mpos] by (cases "bits m") auto
  have bb: "2 ^ c \<le> m" "m < 2 ^ Suc c" using bits_bounds [OF mpos] c by simp_all
  have il: "ilog2 x = - int (Suc c)" using False c by (simp add: ilog2_def m_def z_def)
  have mz: "(of_int m :: rat) = of_int z - 1" by (simp add: m_def)
  have zle: "1 / x \<le> of_int z" by (simp add: z_def)
  have zgt: "of_int z - 1 < 1 / x" using ceiling_correct [of "1 / x"] by (simp add: z_def)
  have "m + 1 \<le> 2 ^ Suc c" using bb(2) by simp
  then have "(of_int (m + 1) :: rat) \<le> of_int (2 ^ Suc c)" by (simp only: of_int_le_iff)
  then have "(of_int z :: rat) \<le> 2 ^ Suc c" using mz by simp
  then have a: "1 / x \<le> 2 ^ Suc c" using zle by linarith
  have "(of_int (2 ^ c) :: rat) \<le> of_int m" using bb(1) by (simp only: of_int_le_iff)
  then have "(2::rat) ^ c \<le> of_int z - 1" using mz by simp
  then have b: "2 ^ c < 1 / x" using zgt by linarith
  have lo: "2 powi ilog2 x \<le> x"
  proof -
    have "1 \<le> x * 2 ^ Suc c" using a assms by (simp add: field_simps)
    then have "1 / 2 ^ Suc c \<le> x" by (simp add: field_simps)
    moreover have "(2::rat) powi ilog2 x = 1 / 2 ^ Suc c"
      by (simp only: il power_int_minus_divide power_int_of_nat)
    ultimately show ?thesis by simp
  qed
  have hi: "x < 2 powi (ilog2 x + 1)"
  proof -
    have "x * 2 ^ c < 1" using b assms by (simp add: field_simps)
    then have "x < 1 / 2 ^ c" by (simp add: field_simps)
    moreover have "ilog2 x + 1 = - int c" using il by simp
    then have "(2::rat) powi (ilog2 x + 1) = 1 / 2 ^ c"
      by (simp only: power_int_minus_divide power_int_of_nat)
    ultimately show ?thesis by simp
  qed
  from lo hi show ?thesis ..
qed

subsection \<open>Rounding to an integer\<close>

lemma round_half_even_error: "\<bar>of_int (round_half_even x) - x\<bar> \<le> 1 / 2"
proof -
  define n where "n = \<lfloor>x\<rfloor>"
  have "of_int n \<le> x" "x < of_int n + 1" using floor_correct [of x] by (simp_all add: n_def)
  then show ?thesis
    unfolding round_half_even_def Let_def n_def [symmetric]
    by (auto simp: abs_le_iff)
qed

lemma round_half_even_of_int: "round_half_even (of_int n) = n"
  by (simp add: round_half_even_def)

lemma round_half_even_near:
  assumes "\<bar>x - of_int m\<bar> < 1 / 2"
  shows "round_half_even x = m"
proof -
  have lo: "of_int m - 1 / 2 < x" and hi: "x < of_int m + 1 / 2" using assms by linarith+
  show ?thesis
  proof (cases "of_int m \<le> x")
    case True
    then have f: "\<lfloor>x\<rfloor> = m" using hi by (intro floor_unique; linarith)
    then show ?thesis using hi by (simp add: round_half_even_def)
  next
    case False
    have "of_int (m - 1) \<le> x" "x < of_int (m - 1) + 1" using False lo by simp_all
    then have f: "\<lfloor>x\<rfloor> = m - 1" by (rule floor_unique)
    then show ?thesis using lo by (simp add: round_half_even_def)
  qed
qed

lemma round_half_even_nonneg: "0 \<le> x \<Longrightarrow> 0 \<le> round_half_even x"
proof -
  assume "0 \<le> x"
  then have "0 \<le> \<lfloor>x\<rfloor>" by simp
  then show ?thesis by (auto simp: round_half_even_def Let_def)
qed

lemma round_half_even_nonpos: "x \<le> 0 \<Longrightarrow> round_half_even x \<le> 0"
proof -
  assume x: "x \<le> 0"
  show ?thesis
  proof (cases "x = 0")
    case True
    then show ?thesis by (simp add: round_half_even_def)
  next
    case False
    then have "x < 0" using x by simp
    then have "\<lfloor>x\<rfloor> < 0" by (simp add: floor_less_iff)
    then have "\<lfloor>x\<rfloor> + 1 \<le> 0" by linarith
    then show ?thesis by (auto simp: round_half_even_def Let_def)
  qed
qed

lemma round_half_even_zero_iff: "round_half_even x = 0 \<longleftrightarrow> \<bar>x\<bar> \<le> 1 / 2"
proof
  assume "round_half_even x = 0"
  then show "\<bar>x\<bar> \<le> 1 / 2" using round_half_even_error [of x] by simp
next
  assume a: "\<bar>x\<bar> \<le> 1 / 2"
  show "round_half_even x = 0"
  proof (cases "0 \<le> x")
    case True
    have "of_int 0 \<le> x" "x < of_int 0 + 1" using True a by simp_all
    then have f: "\<lfloor>x\<rfloor> = 0" by (rule floor_unique)
    then show ?thesis using a True by (simp add: round_half_even_def)
  next
    case False
    have "of_int (- 1) \<le> x" "x < of_int (- 1) + 1" using False a by simp_all
    then have f: "\<lfloor>x\<rfloor> = - 1" by (rule floor_unique)
    then show ?thesis using a False by (auto simp: round_half_even_def Let_def)
  qed
qed

subsection \<open>Rounding to a double\<close>

lemma ulp_exp_ge: "emin \<le> ulp_exp x"
  by (simp add: ulp_exp_def)

lemma min_subnormal_pos: "0 < min_subnormal"
  by (simp add: min_subnormal_def)

lemma nearest_error: "\<bar>nearest x - x\<bar> \<le> 2 powi ulp_exp x / 2"
proof -
  define p where "p = (2::rat) powi ulp_exp x"
  have p: "0 < p" by (simp add: p_def)
  define m where "m = round_half_even (x / p)"
  have "\<bar>of_int m - x / p\<bar> \<le> 1 / 2" unfolding m_def by (rule round_half_even_error)
  then have "\<bar>of_int m - x / p\<bar> * p \<le> 1 / 2 * p" using p by (intro mult_right_mono) simp_all
  moreover have "\<bar>of_int m - x / p\<bar> * p = \<bar>of_int m * p - x\<bar>"
  proof -
    have "\<bar>of_int m - x / p\<bar> * p = \<bar>(of_int m - x / p) * p\<bar>" using p by (simp add: abs_mult)
    also have "(of_int m - x / p) * p = of_int m * p - x" using p by (simp add: field_simps)
    finally show ?thesis .
  qed
  ultimately have "\<bar>of_int m * p - x\<bar> \<le> p / 2" by simp
  then show ?thesis unfolding nearest_def p_def m_def .
qed

lemma ulp_exp_cases:
  assumes "x \<noteq> 0"
  shows "ulp_exp x = emin \<or> 2 powi ulp_exp x \<le> \<bar>x\<bar> / 4503599627370496"
proof (cases "ilog2 \<bar>x\<bar> - 52 \<le> emin")
  case True
  then show ?thesis by (simp add: ulp_exp_def)
next
  case False
  then have e: "ulp_exp x = ilog2 \<bar>x\<bar> - 52" by (simp add: ulp_exp_def)
  have "(2::rat) powi (ilog2 \<bar>x\<bar> - 52) = 2 powi ilog2 \<bar>x\<bar> / 2 powi 52"
    by (rule power_int_diff) simp
  also have "\<dots> \<le> \<bar>x\<bar> / 2 powi 52"
    using ilog2_bounds [of "\<bar>x\<bar>"] assms by (intro divide_right_mono) simp_all
  also have "(2::rat) powi 52 = 4503599627370496" by simp
  finally show ?thesis using e by simp
qed

lemma nearest_0: "nearest 0 = 0"
  by (simp add: nearest_def round_half_even_def)

lemma nearest_abs_error: "\<bar>nearest x - x\<bar> \<le> \<bar>x\<bar> / 9007199254740992 + min_subnormal / 2"
proof (cases "x = 0")
  case True
  then show ?thesis using min_subnormal_pos by (simp add: nearest_0)
next
  case False
  from ulp_exp_cases [OF False] show ?thesis
  proof
    assume e: "ulp_exp x = emin"
    have "\<bar>nearest x - x\<bar> \<le> min_subnormal / 2"
      using nearest_error [of x] by (simp only: e min_subnormal_def)
    moreover have "0 \<le> \<bar>x\<bar> / 9007199254740992" by simp
    ultimately show ?thesis by linarith
  next
    assume "2 powi ulp_exp x \<le> \<bar>x\<bar> / 4503599627370496"
    then have "\<bar>nearest x - x\<bar> \<le> \<bar>x\<bar> / 4503599627370496 / 2"
      using nearest_error [of x] by linarith
    then show ?thesis using min_subnormal_pos by simp
  qed
qed

lemma is_gridI: "x = of_int n * min_subnormal \<Longrightarrow> is_grid x"
  using min_subnormal_pos by (simp add: is_grid_def)

lemma is_gridE: "is_grid x \<Longrightarrow> \<exists>n. x = of_int n * min_subnormal"
proof -
  assume "is_grid x"
  then have "of_int \<lfloor>x / min_subnormal\<rfloor> = x / min_subnormal" by (simp add: is_grid_def)
  then have "of_int \<lfloor>x / min_subnormal\<rfloor> * min_subnormal = x / min_subnormal * min_subnormal"
    by (rule arg_cong)
  also have "\<dots> = x" using min_subnormal_pos by simp
  finally have "x = of_int \<lfloor>x / min_subnormal\<rfloor> * min_subnormal" by (rule sym)
  then show ?thesis by blast
qed

lemma is_grid_0: "is_grid 0"
  by (simp add: is_grid_def)

lemma is_grid_add: "is_grid a \<Longrightarrow> is_grid b \<Longrightarrow> is_grid (a + b)"
proof -
  assume "is_grid a" "is_grid b"
  then obtain m n where "a = of_int m * min_subnormal" "b = of_int n * min_subnormal"
    using is_gridE by blast
  then have "a + b = of_int (m + n) * min_subnormal" by (simp add: distrib_right)
  then show ?thesis by (rule is_gridI)
qed

lemma pow2_split:
  assumes "emin \<le> e"
  shows "(2::rat) powi e = 2 ^ nat (e - emin) * min_subnormal"
proof -
  have "e = int (nat (e - emin)) + emin" using assms by simp
  then have "(2::rat) powi e = 2 powi (int (nat (e - emin)) + emin)" by (rule arg_cong)
  also have "\<dots> = 2 powi int (nat (e - emin)) * 2 powi emin"
    by (rule power_int_add) simp
  also have "\<dots> = 2 ^ nat (e - emin) * min_subnormal"
    by (simp only: power_int_of_nat min_subnormal_def)
  finally show ?thesis .
qed

lemma is_grid_nearest: "is_grid (nearest x)"
proof -
  define m where "m = round_half_even (x / 2 powi ulp_exp x)"
  have "nearest x = of_int m * (2 ^ nat (ulp_exp x - emin) * min_subnormal)"
    using pow2_split [OF ulp_exp_ge [of x]] by (simp add: nearest_def m_def)
  also have "\<dots> = of_int (m * 2 ^ nat (ulp_exp x - emin)) * min_subnormal" by simp
  finally show ?thesis by (rule is_gridI)
qed

lemma nearest_grid_rel:
  assumes "is_grid x"
  shows "\<bar>nearest x - x\<bar> \<le> \<bar>x\<bar> / 9007199254740992"
proof (cases "x = 0")
  case True
  then show ?thesis by (simp add: nearest_0)
next
  case False
  from ulp_exp_cases [OF False] show ?thesis
  proof
    assume e: "ulp_exp x = emin"
    obtain n where n: "x = of_int n * min_subnormal" using is_gridE [OF assms] by blast
    have "x / min_subnormal = of_int n" using n min_subnormal_pos by simp
    then have "nearest x = of_int n * min_subnormal"
      by (simp only: nearest_def e min_subnormal_def [symmetric] round_half_even_of_int)
    then have "nearest x = x" using n by simp
    then show ?thesis by simp
  next
    assume "2 powi ulp_exp x \<le> \<bar>x\<bar> / 4503599627370496"
    then have "\<bar>nearest x - x\<bar> \<le> \<bar>x\<bar> / 4503599627370496 / 2"
      using nearest_error [of x] by linarith
    then show ?thesis by simp
  qed
qed

lemma nearest_nonneg: "0 \<le> x \<Longrightarrow> 0 \<le> nearest x"
  by (simp add: nearest_def round_half_even_nonneg)

lemma nearest_nonpos: "x \<le> 0 \<Longrightarrow> nearest x \<le> 0"
proof -
  assume "x \<le> 0"
  then have "x / 2 powi ulp_exp x \<le> 0" by (simp add: divide_le_0_iff)
  then have "round_half_even (x / 2 powi ulp_exp x) \<le> 0" by (rule round_half_even_nonpos)
  then have "(of_int (round_half_even (x / 2 powi ulp_exp x)) :: rat) \<le> 0" by simp
  then show ?thesis by (simp add: nearest_def mult_le_0_iff)
qed

lemma powi_less_imp: "(2::rat) powi a < 2 powi b \<Longrightarrow> a < b"
proof (rule ccontr)
  assume l: "(2::rat) powi a < 2 powi b" and "\<not> a < b"
  then have "b \<le> a" by simp
  then have "(2::rat) powi b \<le> 2 powi a" by (intro power_int_increasing) simp_all
  then show False using l by simp
qed

lemma nearest_exact:
  assumes x: "x = of_int M * 2 powi k" and M: "\<bar>M\<bar> < 9007199254740992" and k: "emin \<le> k"
  shows "nearest x = x"
proof (cases "x = 0")
  case True
  then show ?thesis by (simp add: nearest_0)
next
  case False
  have "\<bar>x\<bar> = of_int \<bar>M\<bar> * 2 powi k" by (simp add: x abs_mult)
  also have "\<dots> < 9007199254740992 * 2 powi k"
  proof -
    have "(of_int \<bar>M\<bar> :: rat) < of_int 9007199254740992" using M by (simp only: of_int_less_iff)
    then show ?thesis by (intro mult_strict_right_mono) simp_all
  qed
  also have "\<dots> = 2 powi (53 + k)"
  proof -
    have "(2::rat) powi (53 + k) = 2 powi 53 * 2 powi k" by (rule power_int_add) simp
    then show ?thesis by simp
  qed
  finally have up: "\<bar>x\<bar> < 2 powi (53 + k)" .
  have "2 powi ilog2 \<bar>x\<bar> \<le> \<bar>x\<bar>" using ilog2_bounds [of "\<bar>x\<bar>"] False by simp
  then have "(2::rat) powi ilog2 \<bar>x\<bar> < 2 powi (53 + k)" using up by linarith
  then have "ilog2 \<bar>x\<bar> < 53 + k" by (rule powi_less_imp)
  then have "ulp_exp x \<le> k" using k by (simp add: ulp_exp_def)
  define e where "e = ulp_exp x"
  have e: "e \<le> k" using \<open>ulp_exp x \<le> k\<close> by (simp add: e_def)
  define d where "d = nat (k - e)"
  define p where "p = (2::rat) powi e"
  have p: "p \<noteq> 0" by (simp add: p_def)
  have "k = int d + e" using e by (simp add: d_def)
  then have "(2::rat) powi k = 2 powi (int d + e)" by (rule arg_cong)
  also have "\<dots> = 2 powi int d * 2 powi e" by (rule power_int_add) simp
  finally have kk: "(2::rat) powi k = 2 ^ d * p" by (simp add: p_def)
  have xp: "x = of_int (M * 2 ^ d) * p" unfolding x kk by simp
  then have "x / p = of_int (M * 2 ^ d)" using p by simp
  then have "round_half_even (x / p) = M * 2 ^ d" by (simp only: round_half_even_of_int)
  then have "nearest x = of_int (M * 2 ^ d) * p" by (simp only: nearest_def e_def [symmetric] p_def [symmetric])
  then show ?thesis using xp by simp
qed

lemma nearest_zero_iff: "nearest x = 0 \<longleftrightarrow> \<bar>x\<bar> \<le> min_subnormal / 2"
proof (cases "x = 0")
  case True
  then show ?thesis using min_subnormal_pos by (simp add: nearest_0)
next
  case False
  define p where "p = (2::rat) powi ulp_exp x"
  have p: "0 < p" by (simp add: p_def)
  have "nearest x = 0 \<longleftrightarrow> round_half_even (x / p) = 0"
    using p by (simp add: nearest_def p_def)
  also have "\<dots> \<longleftrightarrow> \<bar>x / p\<bar> \<le> 1 / 2" by (rule round_half_even_zero_iff)
  also have "\<bar>x / p\<bar> = \<bar>x\<bar> / p" using p by (simp add: abs_divide)
  also have "\<bar>x\<bar> / p \<le> 1 / 2 \<longleftrightarrow> \<bar>x\<bar> \<le> p / 2" using p by (simp add: field_simps)
  finally have z: "nearest x = 0 \<longleftrightarrow> \<bar>x\<bar> \<le> p / 2" .
  show ?thesis
  proof
    assume "nearest x = 0"
    then have le: "\<bar>x\<bar> \<le> p / 2" using z by simp
    from ulp_exp_cases [OF False] show "\<bar>x\<bar> \<le> min_subnormal / 2"
    proof
      assume "ulp_exp x = emin"
      then show ?thesis using le by (simp add: p_def min_subnormal_def)
    next
      assume "2 powi ulp_exp x \<le> \<bar>x\<bar> / 4503599627370496"
      then have "p \<le> \<bar>x\<bar> / 4503599627370496" by (simp add: p_def)
      then have "\<bar>x\<bar> \<le> 0" using le by linarith
      then show ?thesis using False by simp
    qed
  next
    assume small: "\<bar>x\<bar> \<le> min_subnormal / 2"
    have "(2::rat) powi emin \<le> 2 powi ulp_exp x"
      by (intro power_int_increasing ulp_exp_ge) simp
    then have "min_subnormal \<le> p" by (simp add: p_def min_subnormal_def)
    then have "\<bar>x\<bar> \<le> p / 2" using small by linarith
    then show "nearest x = 0" using z by simp
  qed
qed

lemma nearest_round:
  assumes lo: "2 powi (52 + k) \<le> \<bar>x\<bar>" and hi: "\<bar>x\<bar> < 2 powi (53 + k)"
    and k: "emin \<le> k" and near: "\<bar>x - of_int M * 2 powi k\<bar> < 2 powi k / 2"
  shows "nearest x = of_int M * 2 powi k"
proof -
  have pos: "0 < (2::rat) powi (52 + k)" by simp
  have x0: "x \<noteq> 0"
  proof
    assume "x = 0"
    then have "(2::rat) powi (52 + k) \<le> 0" using lo by simp
    then show False using pos by linarith
  qed
  have b: "2 powi ilog2 \<bar>x\<bar> \<le> \<bar>x\<bar>" "\<bar>x\<bar> < 2 powi (ilog2 \<bar>x\<bar> + 1)"
    using ilog2_bounds [of "\<bar>x\<bar>"] x0 by simp_all
  have "(2::rat) powi ilog2 \<bar>x\<bar> < 2 powi (53 + k)" using b(1) hi by linarith
  then have "ilog2 \<bar>x\<bar> < 53 + k" by (rule powi_less_imp)
  moreover have "(2::rat) powi (52 + k) < 2 powi (ilog2 \<bar>x\<bar> + 1)" using b(2) lo by linarith
  then have "52 + k < ilog2 \<bar>x\<bar> + 1" by (rule powi_less_imp)
  ultimately have "ilog2 \<bar>x\<bar> = 52 + k" by simp
  then have e: "ulp_exp x = k" using k by (simp add: ulp_exp_def)
  define p where "p = (2::rat) powi k"
  have p: "0 < p" by (simp add: p_def)
  have "\<bar>x / p - of_int M\<bar> * p = \<bar>(x / p - of_int M) * p\<bar>" using p by (simp add: abs_mult)
  also have "(x / p - of_int M) * p = x - of_int M * p" using p by (simp add: field_simps)
  finally have "\<bar>x / p - of_int M\<bar> * p < 1 / 2 * p" using near by (simp add: p_def)
  then have "\<bar>x / p - of_int M\<bar> < 1 / 2" using p by (simp only: mult_less_cancel_right_pos)
  then have "round_half_even (x / p) = M" by (rule round_half_even_near)
  then show ?thesis by (simp add: nearest_def e p_def)
qed

subsection \<open>The rounded result as a number\<close>

lemma fl_not_NaN: "fl x \<noteq> NaN"
  by (simp add: fl_def Let_def)

lemma fl_Fin: "\<bar>nearest x\<bar> < overflow_threshold \<Longrightarrow> fl x = Fin (nearest x)"
  by (auto simp: fl_def Let_def)

lemma fl_Fin_iff: "fl x = Fin y \<longleftrightarrow> y = nearest x \<and> \<bar>nearest x\<bar> < overflow_threshold"
  by (auto simp: fl_def Let_def)

lemma fl_0: "fl 0 = Fin 0"
  by (simp add: fl_def nearest_0 overflow_threshold_def)

lemma below_threshold: "\<bar>x\<bar> \<le> 18446744073709551616 \<Longrightarrow> \<bar>x\<bar> < overflow_threshold"
  by (simp add: overflow_threshold_def)

lemma fl_exact:
  assumes "x = of_int M * 2 powi k" and "\<bar>M\<bar> < 9007199254740992" and "emin \<le> k"
    and "\<bar>x\<bar> \<le> 18446744073709551616"
  shows "fl x = Fin x"
  using nearest_exact [OF assms(1-3)] below_threshold [OF assms(4)] by (simp add: fl_Fin)

lemma fl_of_int:
  assumes M: "\<bar>M\<bar> < 9007199254740992"
  shows "fl (of_int M) = Fin (of_int M)"
proof (rule fl_exact [where M = M and k = 0])
  show "(of_int M :: rat) = of_int M * 2 powi 0" by simp
  show "\<bar>M\<bar> < 9007199254740992" by (rule M)
  show "emin \<le> 0" by (simp add: emin_def)
  have "(of_int \<bar>M\<bar> :: rat) < of_int 9007199254740992" using M by (simp only: of_int_less_iff)
  then have "\<bar>of_int M :: rat\<bar> < 9007199254740992" by simp
  then show "\<bar>of_int M :: rat\<bar> \<le> 18446744073709551616" by linarith
qed

lemma fl_int_scaled:
  assumes M: "\<bar>M\<bar> < 9007199254740992" and k: "k \<le> 64"
  shows "fl (of_int M / 2 ^ k) = Fin (of_int M / 2 ^ k)"
proof (rule fl_exact [where M = M and k = "- int k"])
  show "(of_int M / 2 ^ k :: rat) = of_int M * 2 powi (- int k)"
    by (simp only: power_int_minus_divide power_int_of_nat) simp
  show "\<bar>M\<bar> < 9007199254740992" by (rule M)
  show "emin \<le> - int k" using k by (simp add: emin_def)
  have "(of_int \<bar>M\<bar> :: rat) < of_int 9007199254740992" using M by (simp only: of_int_less_iff)
  then have a: "\<bar>of_int M :: rat\<bar> < 9007199254740992" by simp
  have "(1::rat) \<le> 2 ^ k" by simp
  then have "\<bar>of_int M :: rat\<bar> / 2 ^ k \<le> \<bar>of_int M\<bar> / 1"
    by (intro divide_left_mono) simp_all
  then have "\<bar>of_int M / 2 ^ k :: rat\<bar> \<le> \<bar>of_int M\<bar>" by (simp add: abs_divide)
  then show "\<bar>of_int M / 2 ^ k :: rat\<bar> \<le> 18446744073709551616" using a by linarith
qed

lemma fl_Fin_bounds:
  assumes "fl x = Fin y"
  shows "\<bar>y - x\<bar> \<le> \<bar>x\<bar> / 9007199254740992 + min_subnormal / 2 \<and> is_grid y \<and>
         (0 \<le> x \<longrightarrow> 0 \<le> y) \<and> (x \<le> 0 \<longrightarrow> y \<le> 0)"
  using assms nearest_abs_error [of x] is_grid_nearest [of x] nearest_nonneg [of x] nearest_nonpos [of x]
  by (simp add: fl_Fin_iff)

lemma fl_small:
  assumes "\<bar>x\<bar> \<le> 1000000000"
  shows "\<exists>y. fl x = Fin y \<and> \<bar>y - x\<bar> \<le> \<bar>x\<bar> / 9007199254740992 + min_subnormal / 2"
proof -
  have "min_subnormal \<le> 1"
  proof -
    have "(2::rat) powi emin \<le> 2 powi 0" by (intro power_int_increasing) (simp_all add: emin_def)
    then show ?thesis by (simp add: min_subnormal_def)
  qed
  then have "\<bar>nearest x\<bar> \<le> 18446744073709551616" using nearest_abs_error [of x] assms by linarith
  then have "fl x = Fin (nearest x)" by (intro fl_Fin below_threshold)
  then show ?thesis using nearest_abs_error [of x] by simp
qed

lemma fl_numeral: "numeral n < (9007199254740992::int) \<Longrightarrow> fl (numeral n) = Fin (numeral n)"
  using fl_of_int [of "numeral n"] by simp

lemma fl_neg_numeral:
  "numeral n < (9007199254740992::int) \<Longrightarrow> fl (- numeral n) = Fin (- numeral n)"
  using fl_of_int [of "- numeral n"] by simp

lemma fl_1: "fl 1 = Fin 1"
  using fl_of_int [of 1] by simp

lemmas fl_eval = fl_0 fl_1 fl_numeral fl_neg_numeral

section \<open>Year keys and the unit conversion\<close>

lemma digit_val_digit_char: "n < 10 \<Longrightarrow> digit_val (digit_char n) = n"
  by (simp add: digit_val_def digit_char_def)

lemma digits_val_snoc: "digits_val (s @ [c]) = 10 * digits_val s + digit_val c"
  by (simp add: digits_val_def)

lemma digits_val_digits: "digits_val (digits n) = n"
proof (induction n rule: digits.induct)
  case (1 n)
  show ?case
  proof (cases "n < 10")
    case True
    then show ?thesis by (simp add: digits.simps [of n] digits_val_def digit_val_digit_char)
  next
    case False
    then have "digits n = digits (n div 10) @ [digit_char (n mod 10)]" by (simp add: digits.simps [of n])
    then have "digits_val (digits n) = 10 * digits_val (digits (n div 10)) + digit_val (digit_char (n mod 10))"
      by (simp only: digits_val_snoc)
    also have "\<dots> = 10 * (n div 10) + n mod 10"
      using 1 False by (simp add: digit_val_digit_char)
    finally show ?thesis by simp
  qed
qed

lemma yearKey_inj: "yearKey a = yearKey b \<Longrightarrow> a = b"
  unfolding yearKey_def by (metis digits_val_digits)

lemma yearKey_eq_iff: "yearKey a = yearKey b \<longleftrightarrow> a = b"
  using yearKey_inj by blast

lemma fold_setYear_other:
  "k \<notin> yearKey ` set ys \<Longrightarrow> fold (setYear toNumber) ys d k = d k"
  by (induction ys arbitrary: d) (auto simp: setYear_def)

lemma fold_setYear_hit:
  "distinct ys \<Longrightarrow> y \<in> set ys \<Longrightarrow>
   fold (setYear toNumber) ys d (yearKey y) = scaleCell toNumber (d (yearKey y))"
proof (induction ys arbitrary: d)
  case Nil
  then show ?case by simp
next
  case (Cons a ys)
  show ?case
  proof (cases "a = y")
    case True
    then have "yearKey y \<notin> yearKey ` set ys" using Cons.prems by (auto simp: yearKey_eq_iff)
    then show ?thesis using True by (simp add: fold_setYear_other) (simp add: setYear_def)
  next
    case False
    have "fold (setYear toNumber) ys (setYear toNumber a d) (yearKey y)
        = scaleCell toNumber (setYear toNumber a d (yearKey y))"
      using Cons.IH [of "setYear toNumber a d"] Cons.prems False by simp
    moreover have "setYear toNumber a d (yearKey y) = d (yearKey y)"
      using False by (simp add: setYear_def yearKey_eq_iff)
    ultimately show ?thesis by simp
  qed
qed

lemma transformRow_year:
  "1950 \<le> year \<Longrightarrow> year \<le> 2023 \<Longrightarrow>
   transformRow toNumber d (yearKey year) = scaleCell toNumber (d (yearKey year))"
  unfolding transformRow_def
  by (rule fold_setYear_hit) (simp_all only: distinct_upt set_upt atLeastLessThan_iff, arith)

lemma transformRow_other:
  assumes "k \<notin> yearKey ` {1950 ..< 2024}"
  shows "transformRow toNumber d k = d k"
proof -
  have "k \<notin> yearKey ` set [1950 ..< 2024]" unfolding set_upt using assms .
  then show ?thesis unfolding transformRow_def by (rule fold_setYear_other)
qed

lemma digits_all_digit: "c \<in> set (digits n) \<Longrightarrow> 48 \<le> (of_char c :: nat) \<and> (of_char c :: nat) \<le> 57"
proof (induction n rule: digits.induct)
  case (1 n)
  show ?case
  proof (cases "n < 10")
    case True
    then show ?thesis using 1 by (auto simp: digit_char_def digits.simps [of n])
  next
    case False
    then have "c \<in> set (digits (n div 10)) \<or> c = digit_char (n mod 10)"
      using "1.prems" by (auto simp add: digits.simps [of n])
    then show ?thesis
    proof
      assume "c \<in> set (digits (n div 10))"
      then show ?thesis using 1 False by blast
    next
      assume "c = digit_char (n mod 10)"
      then show ?thesis by (simp add: digit_char_def)
    qed
  qed
qed

lemma regionKey_not_year: "regionKey \<noteq> yearKey n"
proof
  assume "regionKey = yearKey n"
  moreover have "CHR ''I'' \<in> set regionKey" by (simp add: regionKey_def)
  ultimately have "CHR ''I'' \<in> set (digits n)" by (simp add: yearKey_def)
  from digits_all_digit [OF this] show False by simp
qed

lemma transformRow_region: "transformRow toNumber d regionKey = d regionKey"
  by (rule transformRow_other) (auto simp: regionKey_not_year)

subsection \<open>Grouping\<close>

lemma keys_group_add:
  "map fst (group_add k v g) = (if k \<in> fst ` set g then map fst g else map fst g @ [k])"
  by (induction g) force+

lemma map_of_group_add:
  "map_of (group_add k v g) k' =
     (if k' = k then (case map_of g k of None \<Rightarrow> Some (v, []) | Some (a, r) \<Rightarrow> Some (a, r @ [v]))
      else map_of g k')"
  by (induction g) (auto)

lemma keys_fold_group_add:
  "distinct (map fst g) \<Longrightarrow>
   distinct (map fst (fold (\<lambda>v g. group_add (f v) v g) vs g)) \<and>
   set (map fst (fold (\<lambda>v g. group_add (f v) v g) vs g)) = fst ` set g \<union> f ` set vs"
proof (induction vs arbitrary: g)
  case Nil
  then show ?case by simp
next
  case (Cons a vs)
  have d: "distinct (map fst (group_add (f a) a g))"
    using Cons.prems by (simp add: keys_group_add)
  have s: "fst ` set (group_add (f a) a g) = insert (f a) (fst ` set g)"
    using keys_group_add [of "f a" a g] by (metis (no_types, lifting) insert_absorb list.set_map set_append list.simps(15) Un_insert_right sup_bot.right_neutral empty_set)
  show ?case using Cons.IH [OF d] s by auto
qed

lemma map_of_fold_group_add:
  "map_of (fold (\<lambda>v g. group_add (f v) v g) vs g) k =
     (case map_of g k of
        Some (a, r) \<Rightarrow> Some (a, r @ filter (\<lambda>v. f v = k) vs)
      | None \<Rightarrow> (case filter (\<lambda>v. f v = k) vs of [] \<Rightarrow> None | a # r \<Rightarrow> Some (a, r)))"
  by (induction vs arbitrary: g) (auto simp: map_of_group_add split: option.splits list.splits)

lemma distinct_keys_group: "distinct (map fst (d3_group vs f))"
  unfolding d3_group_def using keys_fold_group_add [of "[]" f vs] by simp

lemma set_keys_group: "fst ` set (d3_group vs f) = f ` set vs"
  unfolding d3_group_def using keys_fold_group_add [of "[]" f vs] by simp

lemma map_of_group:
  "map_of (d3_group vs f) k = (case filter (\<lambda>v. f v = k) vs of [] \<Rightarrow> None | a # r \<Rightarrow> Some (a, r))"
  unfolding d3_group_def by (simp add: map_of_fold_group_add)

subsection \<open>Evaluating the examples\<close>

lemmas stringToNumber_eval =
  stringToNumber_def trim_def is_space_def radixLiteral_def radix_digit_def
  unsignedDecimal_def is_digit_def exponentPart_def signedDigits_def digits_val_def
  digit_val_def scale10_def

lemma yearKey_2020: "yearKey 2020 = ''2020''"
  by code_simp

lemma yearKey_2021: "yearKey 2021 = ''2021''"
  by code_simp

lemma yearKey_2019: "yearKey 2019 = ''2019''"
  by code_simp

lemma stringToNumber_5000: "stringToNumber ''5000'' = Fin 5000"
  by (simp add: stringToNumber_eval fl_eval)

lemma stringToNumber_3000: "stringToNumber ''3000'' = Fin 3000"
  by (simp add: stringToNumber_eval fl_eval)

lemma stringToNumber_4000: "stringToNumber ''4000'' = Fin 4000"
  by (simp add: stringToNumber_eval fl_eval)

lemma stringToNumber_6000: "stringToNumber ''6000'' = Fin 6000"
  by (simp add: stringToNumber_eval fl_eval)

lemma stringToNumber_1000: "stringToNumber ''1000'' = Fin 1000"
  by (simp add: stringToNumber_eval fl_eval)

lemma stringToNumber_word: "stringToNumber ''n/a'' = NaN"
  by (simp add: stringToNumber_eval)

lemma stringToNumber_negative: "stringToNumber ''-5000'' = Fin (- 5000)"
  by (simp add: stringToNumber_eval fl_eval)

lemma transformRow_region_literal:
  "transformRow toNumber d ''Imports by Regions'' = d ''Imports by Regions''"
  using transformRow_region [of toNumber d] by (simp only: regionKey_def)

lemma transformRow_2020: "transformRow toNumber d ''2020'' = scaleCell toNumber (d ''2020'')"
  using transformRow_year [of 2020 toNumber d] by (simp add: yearKey_2020)

lemma transformRow_2021: "transformRow toNumber d ''2021'' = scaleCell toNumber (d ''2021'')"
  using transformRow_year [of 2021 toNumber d] by (simp add: yearKey_2021)

lemma transformRow_2019: "transformRow toNumber d ''2019'' = scaleCell toNumber (d ''2019'')"
  using transformRow_year [of 2019 toNumber d] by (simp add: yearKey_2019)

lemmas transformer_eval =
  transformer_def regionArmsData_def d3_group_def filteredData_def forEachRow_def
  regionKey_def transformRow_region_literal transformRow_2019 transformRow_2020
  transformRow_2021 scaleCell_def or_zero_def csvRow_def

lemma stringToNumber_2000: "stringToNumber ''2000'' = Fin 2000"
  by (simp add: stringToNumber_eval fl_eval)

lemma stringToNumber_10000: "stringToNumber ''10000'' = Fin 10000"
  by (simp add: stringToNumber_eval fl_eval)

lemma transformer_table_2020:
  "transformer stringToNumber 2020 table =
     [\<lparr>region = Str ''Europe'', armsTrade = Number (Fin 5)\<rparr>,
      \<lparr>region = Str ''Asia'', armsTrade = Number (Fin 3)\<rparr>]"
  by (simp add: transformer_eval table_def europe1_def europe2_def asia_def world_def
        yearKey_2020 stringToNumber_5000 stringToNumber_3000 stringToNumber_2000 stringToNumber_10000
        fl_eval)

lemma transformer_table_2019:
  "transformer stringToNumber 2019 table =
     [\<lparr>region = Str ''Europe'', armsTrade = Number (Fin 4)\<rparr>,
      \<lparr>region = Str ''Asia'', armsTrade = Number (Fin 6)\<rparr>]"
  by (simp add: transformer_eval table_def europe1_def europe2_def asia_def world_def
        yearKey_2019 stringToNumber_4000 stringToNumber_6000 fl_eval)

lemma transformer_europe_first:
  "transformer stringToNumber 2020 europe_first =
     [\<lparr>region = Str ''Europe'', armsTrade = Number (Fin 5)\<rparr>,
      \<lparr>region = Str ''Asia'', armsTrade = Number (Fin 3)\<rparr>]"
  by (simp add: transformer_eval europe_first_def europe1_def asia_def
        yearKey_2020 stringToNumber_5000 stringToNumber_3000 fl_eval)

lemma transformer_asia_first:
  "transformer stringToNumber 2020 asia_first =
     [\<lparr>region = Str ''Asia'', armsTrade = Number (Fin 3)\<rparr>,
      \<lparr>region = Str ''Europe'', armsTrade = Number (Fin 5)\<rparr>]"
  by (simp add: transformer_eval asia_first_def europe1_def asia_def
        yearKey_2020 stringToNumber_5000 stringToNumber_3000 fl_eval)

lemma transformer_table_2021:
  "transformer stringToNumber 2021 table =
     [\<lparr>region = Str ''Europe'', armsTrade = Number (Fin 0)\<rparr>,
      \<lparr>region = Str ''Asia'', armsTrade = Number (Fin 0)\<rparr>]"
  by (simp add: transformer_eval table_def europe1_def europe2_def asia_def world_def
        yearKey_2021 stringToNumber_word)

subsection \<open>The transformer\<close>

lemma forEachRow_region: "map (\<lambda>d. d regionKey) (forEachRow toNumber data) = map (\<lambda>d. d regionKey) data"
  by (simp add: forEachRow_def transformRow_region)

lemma filteredData_forEachRow:
  "filteredData (forEachRow toNumber data) = forEachRow toNumber (filteredData data)"
  by (simp add: filteredData_def forEachRow_def filter_map comp_def transformRow_region)

lemma regions_transformer:
  "map region (transformer toNumber selectedYear data) =
     map fst (d3_group (filteredData (forEachRow toNumber data)) (\<lambda>d. d regionKey))"
  by (simp add: transformer_def regionArmsData_def case_prod_beta comp_def)

lemma set_regions_transformer:
  "region ` set (transformer toNumber selectedYear data) =
     (\<lambda>d. d regionKey) ` set (filteredData data)"
proof -
  have "region ` set (transformer toNumber selectedYear data)
      = set (map region (transformer toNumber selectedYear data))" by simp
  also have "\<dots> = fst ` set (d3_group (filteredData (forEachRow toNumber data)) (\<lambda>d. d regionKey))"
    by (simp only: regions_transformer set_map)
  also have "\<dots> = (\<lambda>d. d regionKey) ` set (forEachRow toNumber (filteredData data))"
    by (simp only: set_keys_group filteredData_forEachRow)
  also have "\<dots> = set (map (\<lambda>d. d regionKey) (forEachRow toNumber (filteredData data)))" by simp
  also have "\<dots> = (\<lambda>d. d regionKey) ` set (filteredData data)"
    by (simp only: forEachRow_region set_map)
  finally show ?thesis .
qed

lemma distinct_regions_transformer:
  "distinct (map region (transformer toNumber selectedYear data))"
  by (simp only: regions_transformer distinct_keys_group)

subsection \<open>First occurrence\<close>

lemma find_filter_Cons: "find P xs = Some a \<Longrightarrow> \<exists>r. filter P xs = a # r"
  by (induction xs) (auto split: if_splits)

lemma filter_key_distinct:
  "distinct (map fst g) \<Longrightarrow> map_of g k = Some v \<Longrightarrow> filter (\<lambda>p. fst p = k) g = [(k, v)]"
proof (induction g)
  case Nil
  then show ?case by simp
next
  case (Cons p g)
  show ?case
  proof (cases "fst p = k")
    case True
    then have "k \<notin> fst ` set g" using Cons.prems(1) by auto
    then have "filter (\<lambda>p. fst p = k) g = []"
      by (auto simp: filter_empty_conv intro: rev_image_eqI)
    then show ?thesis using True Cons.prems(2) by (cases p) auto
  next
    case False
    then show ?thesis using Cons by (cases p) auto
  qed
qed

lemma datum_of_region:
  assumes "find (\<lambda>d. d regionKey = r) rows = Some d0"
  shows "filter (\<lambda>x. region x = r) (regionArmsData selectedYear rows) =
           [\<lparr>region = r, armsTrade = or_zero (d0 (yearKey selectedYear))\<rparr>]"
proof -
  let ?g = "d3_group rows (\<lambda>d. d regionKey)"
  let ?h = "\<lambda>(r, first, others). \<lparr>region = r, armsTrade = or_zero (first (yearKey selectedYear))\<rparr>"
  obtain rest where f: "filter (\<lambda>d. d regionKey = r) rows = d0 # rest"
    using find_filter_Cons [OF assms] by blast
  then have "map_of ?g r = Some (d0, rest)" by (simp add: map_of_group)
  then have "filter (\<lambda>p. fst p = r) ?g = [(r, d0, rest)]"
    using filter_key_distinct [OF distinct_keys_group] by fast
  moreover have "filter (\<lambda>x. region x = r) (map ?h ?g) = map ?h (filter (\<lambda>p. fst p = r) ?g)"
    by (simp add: filter_map comp_def case_prod_beta)
  ultimately show ?thesis by (simp add: regionArmsData_def)
qed

lemma find_filteredData_forEachRow:
  assumes "find (\<lambda>d. d regionKey = r) data = Some d0"
    and "r \<noteq> Str ''World total''" and "r \<noteq> Str ''International organizations''"
  shows "find (\<lambda>d. d regionKey = r) (filteredData (forEachRow toNumber data)) = Some (transformRow toNumber d0)"
  using assms
  by (induction data) (auto simp: filteredData_def forEachRow_def transformRow_region split: if_splits)

lemma or_zero_scaleCell: "or_zero (scaleCell toNumber v) = scaleCell toNumber v"
  by (simp add: scaleCell_def or_zero_def)

subsection \<open>Values\<close>

lemma datum_of_first_row:
  assumes "find (\<lambda>d. d regionKey = r) data = Some d0"
    and "r \<noteq> Str ''World total''" and "r \<noteq> Str ''International organizations''"
  shows "filter (\<lambda>x. region x = r) (transformer toNumber selectedYear data) =
           [\<lparr>region = r, armsTrade = or_zero (transformRow toNumber d0 (yearKey selectedYear))\<rparr>]"
  unfolding transformer_def
  by (rule datum_of_region) (rule find_filteredData_forEachRow [OF assms])

lemma find_Some_ex: "\<exists>a\<in>set xs. P a \<Longrightarrow> \<exists>b. find P xs = Some b"
  by (cases "find P xs") (auto simp: find_None_iff)

lemma datum_has_first_row:
  assumes "x \<in> set (transformer toNumber selectedYear data)"
  shows "\<exists>d0. find (\<lambda>d. d regionKey = region x) data = Some d0 \<and>
           armsTrade x = or_zero (transformRow toNumber d0 (yearKey selectedYear))"
proof -
  have "region x \<in> (\<lambda>d. d regionKey) ` set (filteredData data)"
    using assms set_regions_transformer [of toNumber selectedYear data] by blast
  then have ok: "region x \<noteq> Str ''World total''" "region x \<noteq> Str ''International organizations''"
    and "\<exists>d\<in>set data. d regionKey = region x"
    by (auto simp: filteredData_def)
  then obtain d0 where f: "find (\<lambda>d. d regionKey = region x) data = Some d0"
    using find_Some_ex [of data "\<lambda>d. d regionKey = region x"] by blast
  have "x \<in> set (filter (\<lambda>z. region z = region x) (transformer toNumber selectedYear data))"
    using assms by simp
  then have "x = \<lparr>region = region x,
                 armsTrade = or_zero (transformRow toNumber d0 (yearKey selectedYear))\<rparr>"
    by (simp only: datum_of_first_row [OF f ok]) simp
  then have "armsTrade x = or_zero (transformRow toNumber d0 (yearKey selectedYear))"
    by (metis regionDatum.select_convs(2))
  with f show ?thesis by blast
qed

lemma or_zero_Number: "or_zero (Number n) = Number (if n = NaN then Fin 0 else n)"
  by (cases n) (simp_all add: or_zero_def)

lemma jsdiv_NaN_iff: "b \<noteq> 0 \<Longrightarrow> jsdiv c (Fin b) = NaN \<longleftrightarrow> c = NaN"
  by (cases c) (simp_all add: fl_not_NaN)

lemma scaleCell_Number:
  "scaleCell toNumber v =
     Number (if to_number toNumber v = NaN then Fin 0 else jsdiv (to_number toNumber v) (Fin 1000))"
  by (simp add: scaleCell_def or_zero_Number jsdiv_NaN_iff)

lemma negative_fl: "negative (fl x) \<longleftrightarrow> x < - (min_subnormal / 2)"
proof -
  have z: "nearest x = 0 \<longleftrightarrow> \<bar>x\<bar> \<le> min_subnormal / 2" by (rule nearest_zero_iff)
  have pos: "0 < overflow_threshold" by (simp add: overflow_threshold_def)
  show ?thesis
  proof (cases "x < - (min_subnormal / 2)")
    case True
    then have "x \<le> 0" using min_subnormal_pos by linarith
    then have "nearest x \<le> 0" by (rule nearest_nonpos)
    moreover have "nearest x \<noteq> 0" using z True by linarith
    ultimately have "nearest x < 0" by simp
    then show ?thesis using True pos by (auto simp: fl_def Let_def)
  next
    case False
    have "0 \<le> nearest x"
    proof (cases "0 \<le> x")
      case True
      then show ?thesis by (rule nearest_nonneg)
    next
      case neg: False
      then have "\<bar>x\<bar> \<le> min_subnormal / 2" using False by linarith
      then show ?thesis using z by simp
    qed
    then show ?thesis using False pos by (auto simp: fl_def Let_def)
  qed
qed

lemma scaleCell_sign:
  "\<exists>n. scaleCell toNumber v = Number n \<and> n \<noteq> NaN \<and>
       nonneg n = (case to_number toNumber v of
                     Fin q \<Rightarrow> - (min_subnormal / 2) \<le> q / 1000 | NInf \<Rightarrow> False | _ \<Rightarrow> True)"
proof (cases "to_number toNumber v")
  case (Fin q)
  have "fl (q / 1000) \<noteq> NaN" by (rule fl_not_NaN)
  moreover have "nonneg (fl (q / 1000)) = (\<not> negative (fl (q / 1000)))"
    by (cases "fl (q / 1000)") (auto simp: fl_not_NaN)
  ultimately show ?thesis using Fin by (simp add: scaleCell_Number negative_fl not_less)
qed (simp_all add: scaleCell_Number)

lemma scaleCell_grid:
  "\<exists>n. scaleCell toNumber v = Number n \<and> n \<noteq> NaN \<and> (\<forall>q. n = Fin q \<longrightarrow> is_grid q)"
proof (cases "to_number toNumber v")
  case (Fin q)
  show ?thesis
  proof (cases "fl (q / 1000)")
    case (Fin y)
    then have "is_grid y" using fl_Fin_bounds by blast
    then show ?thesis using Fin \<open>to_number toNumber v = Fin q\<close> by (simp add: scaleCell_Number)
  qed (use Fin in \<open>simp_all add: scaleCell_Number fl_not_NaN\<close>)
qed (simp_all add: scaleCell_Number is_grid_0)

lemma transformer_deficit:
  "transformer stringToNumber 2020 [deficit] = [\<lparr>region = Str ''Europe'', armsTrade = Number (Fin (- 5))\<rparr>]"
  by (simp add: transformer_eval deficit_def yearKey_2020 stringToNumber_negative fl_eval)

subsection \<open>The effect\<close>

lemma total_table_2021: "totalOf stringToNumber (transformer stringToNumber 2021 table) = Fin 0"
  by (simp add: transformer_table_2021 totalOf_def d3_sum_def)

lemma has_path_title: "\<not> has_path (title selectedYear)"
  by (simp add: title_def)

lemma useEffect_rejected:
  "useEffect toNumber selectedYear (Rejected error) u =
     u\<lparr>svg := [title selectedYear],
       requests := requests u @ [dataUrl],
       console := console u @ [(''Error loading data:'', error)]\<rparr>"
  by (simp add: useEffect_def catch_callback_def)

subsection \<open>The colour scale\<close>

lemma index_of_append_Some: "index_of k xs = Some i \<Longrightarrow> index_of k (xs @ ys) = Some i"
  by (induction xs arbitrary: i) (auto split: if_splits)

lemma index_of_append_None: "index_of k xs = None \<Longrightarrow> index_of k (xs @ [k]) = Some (length xs)"
  by (induction xs) (auto split: if_splits)

lemma index_of_None_iff: "index_of k xs = None \<longleftrightarrow> k \<notin> set xs"
  by (induction xs) auto

lemma colorScale_known:
  "k \<in> set domain \<Longrightarrow> colorScale domain k = (color_at domain k, domain)"
  by (cases "index_of k domain") (auto simp: colorScale_def color_at_def index_of_None_iff)

lemma colorScale_result:
  "colorScale domain k = (c, domain') \<Longrightarrow>
     k \<in> set domain' \<and> c = color_at domain' k \<and> (\<exists>ext. domain' = domain @ ext)"
proof (cases "index_of k domain")
  case None
  assume "colorScale domain k = (c, domain')"
  then have "c = schemeCategory10 ! (length domain mod length schemeCategory10)"
    and "domain' = domain @ [k]"
    using None by (auto simp: colorScale_def)
  then show ?thesis using index_of_append_None [OF None] by (simp add: color_at_def)
next
  case (Some i)
  assume "colorScale domain k = (c, domain')"
  then have "c = schemeCategory10 ! (i mod length schemeCategory10)" and "domain' = domain"
    using Some by (auto simp: colorScale_def)
  moreover have "k \<in> set domain" using Some index_of_None_iff [of k domain] by auto
  ultimately show ?thesis using Some by (simp add: color_at_def)
qed

lemma color_at_append: "k \<in> set domain \<Longrightarrow> color_at (domain @ ext) k = color_at domain k"
  by (cases "index_of k domain") (auto simp: color_at_def index_of_append_Some index_of_None_iff)

lemma colorScale_each_result:
  "colorScale_each domain ks = (cs, domain') \<Longrightarrow>
     set ks \<subseteq> set domain' \<and> cs = map (color_at domain') ks \<and> (\<exists>ext. domain' = domain @ ext)"
proof (induction ks arbitrary: domain cs domain')
  case Nil
  then show ?case by simp
next
  case (Cons k ks)
  obtain c d1 where c: "colorScale domain k = (c, d1)" by (cases "colorScale domain k")
  obtain cs1 d2 where r: "colorScale_each d1 ks = (cs1, d2)" by (cases "colorScale_each d1 ks")
  have eq: "cs = c # cs1" "domain' = d2" using Cons.prems c r by auto
  from colorScale_result [OF c] obtain e1 where
    k: "k \<in> set d1" "c = color_at d1 k" "d1 = domain @ e1" by blast
  from Cons.IH [OF r] obtain e2 where
    ks: "set ks \<subseteq> set d2" "cs1 = map (color_at d2) ks" "d2 = d1 @ e2" by blast
  have "c = color_at d2 k" by (simp only: ks(3) k(2) color_at_append [OF k(1)])
  moreover have "k \<in> set d2" using k(1) ks(3) by auto
  moreover have "d2 = domain @ (e1 @ e2)" using k ks(3) by simp
  ultimately show ?case using eq ks by auto
qed

lemma colorScale_each_known:
  "set ks \<subseteq> set domain \<Longrightarrow> colorScale_each domain ks = (map (color_at domain) ks, domain)"
  by (induction ks) (auto simp: colorScale_known)

lemma colorScale_each_length: "length (fst (colorScale_each domain ks)) = length ks"
  using colorScale_each_result [of domain ks "fst (colorScale_each domain ks)" "snd (colorScale_each domain ks)"]
  by simp

lemma colorScale_each_again:
  "colorScale_each domain ks = (cs, domain') \<Longrightarrow> colorScale_each domain' ks = (cs, domain')"
  using colorScale_each_result [of domain ks cs domain'] by (simp add: colorScale_each_known)

subsection \<open>The legend and the slices\<close>

lemma legend_colors_legendInfo:
  "legend_colors (fst (legendInfo toNumber t regionData)) =
     zip (map region regionData) (fst (colorScale_each [] (map region regionData)))"
proof -
  obtain cs dm where c: "colorScale_each [] (map region regionData) = (cs, dm)"
    by (cases "colorScale_each [] (map region regionData)")
  have "map (\<lambda>e. (region e, color e)) (map2 (legendEntryOf toNumber t) regionData cs)
          = map (\<lambda>(d, c). (region d, c)) (zip regionData cs)"
    by (simp add: legendEntryOf_def case_prod_beta)
  also have "\<dots> = zip (map region regionData) cs"
    by (simp add: zip_map1)
  finally show ?thesis by (simp add: legend_colors_def legendInfo_def c)
qed

lemma legendData_useEffect:
  assumes "totalOf toNumber (transformer toNumber selectedYear data) \<noteq> Fin 0"
  shows "legendData (useEffect toNumber selectedYear (Resolved data) u) =
           fst (legendInfo toNumber (totalOf toNumber (transformer toNumber selectedYear data))
                  (transformer toNumber selectedYear data))"
  using assms by (simp add: useEffect_def then_callback_def Let_def case_prod_beta)

lemma path_colors_slices:
  "length cs = length rd \<Longrightarrow> concat (map path_colors (map2 slice rd cs)) = zip (map region rd) cs"
  by (induction rd cs rule: list_induct2') (auto simp: slice_def)

lemma path_colors_slice_group:
  "length cs = length rd \<Longrightarrow> path_colors (G tr (map2 slice rd cs)) = zip (map region rd) cs"
  using path_colors_slices [of cs rd] by simp

lemma path_colors_label_group: "path_colors (G tr (map (sliceLabel toNumber t) rd)) = []"
  by (induction rd) (auto simp: sliceLabel_def)

lemma slice_colors_useEffect:
  assumes "totalOf toNumber (transformer toNumber selectedYear data) \<noteq> Fin 0"
  shows "slice_colors (svg (useEffect toNumber selectedYear (Resolved data) u)) =
           zip (map region (transformer toNumber selectedYear data))
               (fst (colorScale_each [] (map region (transformer toNumber selectedYear data))))"
proof -
  let ?rd = "transformer toNumber selectedYear data"
  obtain cs dm where c: "colorScale_each [] (map region ?rd) = (cs, dm)"
    by (cases "colorScale_each [] (map region ?rd)")
  have again: "colorScale_each dm (map region ?rd) = (cs, dm)"
    by (rule colorScale_each_again [OF c])
  have len: "length cs = length ?rd"
    using colorScale_each_length [of "[]" "map region ?rd"] c by simp
  have "svg (useEffect toNumber selectedYear (Resolved data) u) =
          [title selectedYear,
           G ''translate(250, 300)'' (map2 slice ?rd cs),
           G ''translate(250, 300)''
             (map (sliceLabel toNumber (totalOf toNumber ?rd)) ?rd)]"
    using assms
    by (simp add: useEffect_def then_callback_def Let_def legendInfo_def c again)
  then show ?thesis
    by (simp add: slice_colors_def title_def c path_colors_slice_group [OF len]
          path_colors_label_group del: path_colors.simps(3))
qed

lemma regions_year_independent:
  "map region (transformer toNumber y1 data) = map region (transformer toNumber y2 data)"
  by (simp only: regions_transformer)

lemma total_table_2020: "totalOf stringToNumber (transformer stringToNumber 2020 table) = Fin 8"
  by (simp add: transformer_table_2020 totalOf_def d3_sum_def fl_eval)

lemma total_table_2019: "totalOf stringToNumber (transformer stringToNumber 2019 table) = Fin 10"
  by (simp add: transformer_table_2019 totalOf_def d3_sum_def fl_eval)

lemma total_europe_first: "totalOf stringToNumber (transformer stringToNumber 2020 europe_first) = Fin 8"
  by (simp add: transformer_europe_first totalOf_def d3_sum_def fl_eval)

lemma total_asia_first: "totalOf stringToNumber (transformer stringToNumber 2020 asia_first) = Fin 8"
  by (simp add: transformer_asia_first totalOf_def d3_sum_def fl_eval)

subsection \<open>Labels in order of first occurrence\<close>

lemma keys_fold_group_add_eq:
  "map fst (fold (\<lambda>v g. group_add (f v) v g) vs g) =
     fold (\<lambda>v ls. if f v \<in> set ls then ls else ls @ [f v]) vs (map fst g)"
proof (induction vs arbitrary: g)
  case Nil
  then show ?case by simp
next
  case (Cons v vs)
  have "map fst (group_add (f v) v g) =
          (if f v \<in> set (map fst g) then map fst g else map fst g @ [f v])"
    by (simp add: keys_group_add)
  then show ?case using Cons.IH [of "group_add (f v) v g"] by simp
qed

lemma regions_eq_labels: "map region (transformer toNumber selectedYear data) = region_labels data"
proof -
  let ?step = "\<lambda>d ls. if d regionKey \<in> set ls then ls else ls @ [d regionKey]"
  have "map region (transformer toNumber selectedYear data) =
          fold ?step (forEachRow toNumber (filteredData data)) []"
    by (simp only: regions_transformer filteredData_forEachRow d3_group_def keys_fold_group_add_eq)
       simp
  also have "\<dots> = fold (?step \<circ> transformRow toNumber) (filteredData data) []"
    by (simp only: forEachRow_def fold_map)
  also have "?step \<circ> transformRow toNumber = ?step"
    by (intro ext) (simp add: transformRow_region)
  finally show ?thesis by (simp only: region_labels_def)
qed

lemma distinct_region_labels: "distinct (region_labels data)"
  using distinct_regions_transformer [of undefined 0 data] by (simp only: regions_eq_labels)

lemma length_schemeCategory10: "length schemeCategory10 = 10"
  by (simp add: schemeCategory10_def)

lemma distinct_schemeCategory10: "distinct schemeCategory10"
  by (simp add: schemeCategory10_def)

lemma colorScale_each_new:
  "distinct ks \<Longrightarrow> set ks \<inter> set domain = {} \<Longrightarrow>
   colorScale_each domain ks =
     (map (\<lambda>i. schemeCategory10 ! (i mod 10)) [length domain ..< length domain + length ks],
      domain @ ks)"
proof (induction ks arbitrary: domain)
  case Nil
  then show ?case by simp
next
  case (Cons k ks)
  have new: "index_of k domain = None" using Cons.prems(2) by (simp add: index_of_None_iff)
  have c: "colorScale domain k = (schemeCategory10 ! (length domain mod 10), domain @ [k])"
    by (simp add: colorScale_def new length_schemeCategory10)
  have "distinct ks" "set ks \<inter> set (domain @ [k]) = {}" using Cons.prems by auto
  from Cons.IH [OF this]
  have r: "colorScale_each (domain @ [k]) ks =
     (map (\<lambda>i. schemeCategory10 ! (i mod 10)) [Suc (length domain) ..< Suc (length domain) + length ks],
      domain @ k # ks)" by simp
  have "[length domain ..< length domain + length (k # ks)] =
          length domain # [Suc (length domain) ..< Suc (length domain) + length ks]"
    by (simp add: upt_conv_Cons del: upt_Suc)
  then show ?case by (simp add: c r del: upt_Suc)
qed

lemma zip_map_upt:
  "zip xs (map f [0 ..< length xs]) = map (\<lambda>i. (xs ! i, f i)) [0 ..< length xs]"
  by (rule nth_equalityI) simp_all

lemma legend_colors_position:
  assumes "totalOf toNumber (transformer toNumber selectedYear data) \<noteq> Fin 0"
  shows "legend_colors (legendData (useEffect toNumber selectedYear (Resolved data) u)) =
           zip (region_labels data)
               (map (\<lambda>i. schemeCategory10 ! (i mod 10)) [0 ..< length (region_labels data)])"
proof -
  have "colorScale_each [] (region_labels data) =
          (map (\<lambda>i. schemeCategory10 ! (i mod 10)) [0 ..< length (region_labels data)],
           region_labels data)"
    using colorScale_each_new [OF distinct_region_labels, of data "[]"] by simp
  then show ?thesis
    by (simp add: legendData_useEffect [OF assms] legend_colors_legendInfo regions_eq_labels)
qed

lemma slice_colors_position:
  assumes "totalOf toNumber (transformer toNumber selectedYear data) \<noteq> Fin 0"
  shows "slice_colors (svg (useEffect toNumber selectedYear (Resolved data) u)) =
           legend_colors (legendData (useEffect toNumber selectedYear (Resolved data) u))"
  by (simp add: slice_colors_useEffect [OF assms] legendData_useEffect [OF assms]
        legend_colors_legendInfo)

lemma color_of_position:
  assumes "totalOf toNumber (transformer toNumber selectedYear data) \<noteq> Fin 0"
    and "i < length (region_labels data)"
  shows "color_of (legend_colors (legendData (useEffect toNumber selectedYear (Resolved data) u)))
           (region_labels data ! i) = Some (schemeCategory10 ! (i mod 10))"
proof -
  let ?cs = "map (\<lambda>i. schemeCategory10 ! (i mod 10)) [0 ..< length (region_labels data)]"
  have "map_of (zip (region_labels data) ?cs) (region_labels data ! i) = Some (?cs ! i)"
    by (rule map_of_zip_nth) (use assms(2) distinct_region_labels in simp_all)
  then show ?thesis using assms(2) by (simp add: color_of_def legend_colors_position [OF assms(1)])
qed

lemma palette_eq_iff:
  "schemeCategory10 ! (i mod 10) = schemeCategory10 ! (j mod 10) \<longleftrightarrow> i mod 10 = j mod 10"
  by (rule nth_eq_iff_index_eq) (simp_all add: distinct_schemeCategory10 length_schemeCategory10)

subsection \<open>Thirty-one regions\<close>

lemma group_add_new: "k \<notin> fst ` set g \<Longrightarrow> group_add k v g = g @ [(k, v, [])]"
  by (induction g) auto

lemma fold_group_add_distinct:
  "distinct (map f vs) \<Longrightarrow> fst ` set g \<inter> f ` set vs = {} \<Longrightarrow>
   fold (\<lambda>v g. group_add (f v) v g) vs g = g @ map (\<lambda>v. (f v, v, [])) vs"
proof (induction vs arbitrary: g)
  case Nil
  then show ?case by simp
next
  case (Cons v vs)
  have new: "f v \<notin> fst ` set g" using Cons.prems(2) by auto
  have "fst ` set (g @ [(f v, v, [])]) \<inter> f ` set vs = {}"
    using Cons.prems by auto
  with Cons.IH [of "g @ [(f v, v, [])]"] Cons.prems(1) show ?case
    by (simp add: group_add_new [OF new])
qed

lemma d3_group_distinct:
  "distinct (map f vs) \<Longrightarrow> d3_group vs f = map (\<lambda>v. (f v, v, [])) vs"
  unfolding d3_group_def using fold_group_add_distinct [of f vs "[]"] by simp

lemma region_row_label: "region_row i regionKey = Str (''Region '' @ digits i)"
  by (simp add: region_row_def csvRow_def regionKey_def)

lemma region_row_2020: "region_row i ''2020'' = Str ''1000''"
  by (simp add: region_row_def csvRow_def)

lemma digits_inj: "digits a = digits b \<Longrightarrow> a = b"
  by (metis digits_val_digits)

lemma many_rows_distinct: "distinct (map (\<lambda>d. d regionKey) (forEachRow toNumber many_rows))"
proof -
  have "map (\<lambda>d. d regionKey) (forEachRow toNumber many_rows)
          = map (\<lambda>i. Str (''Region '' @ digits i)) [1 ..< 32]"
    by (simp only: forEachRow_region) (simp add: many_rows_def comp_def region_row_label del: upt_Suc)
  moreover have "distinct (map (\<lambda>i. Str (''Region '' @ digits i)) [1 ..< 32])"
    by (simp only: distinct_map distinct_upt) (auto simp: inj_on_def dest: digits_inj)
  ultimately show ?thesis by simp
qed

lemma many_rows_filtered: "filteredData (forEachRow toNumber many_rows) = forEachRow toNumber many_rows"
  by (simp only: filteredData_forEachRow)
     (simp add: filteredData_def many_rows_def region_row_label del: upt_Suc)

lemma transformer_many_rows:
  "transformer stringToNumber 2020 many_rows =
     map (\<lambda>i. \<lparr>region = Str (''Region '' @ digits i), armsTrade = Number (Fin 1)\<rparr>) [1 ..< 32]"
  by (simp only: transformer_def many_rows_filtered regionArmsData_def
        d3_group_distinct [OF many_rows_distinct])
     (simp add: forEachRow_def many_rows_def comp_def transformRow_region region_row_label
        yearKey_2020 transformRow_2020 region_row_2020 scaleCell_def or_zero_def
        stringToNumber_1000 fl_eval del: upt_Suc)

lemma fold_jsadd_one:
  "a + length xs < 9007199254740992 \<Longrightarrow>
   fold (\<lambda>x s. jsadd s (Fin 1)) xs (Fin (of_nat a)) = Fin (of_nat (a + length xs))"
proof (induction xs arbitrary: a)
  case Nil
  then show ?case by simp
next
  case (Cons x xs)
  have "\<bar>int a + 1\<bar> < 9007199254740992" using Cons.prems by simp
  then have "fl (of_int (int a + 1)) = Fin (of_int (int a + 1))" by (rule fl_of_int)
  then have "jsadd (Fin (of_nat a)) (Fin 1) = Fin (of_nat (Suc a))" by simp
  moreover have "Suc a + length xs < 9007199254740992" using Cons.prems by simp
  ultimately show ?case using Cons.IH [of "Suc a"] by simp
qed

lemma total_many_rows: "totalOf stringToNumber (transformer stringToNumber 2020 many_rows) = Fin 31"
  using fold_jsadd_one [of 0 "[1 ..< 32]"]
  by (simp add: transformer_many_rows totalOf_def d3_sum_def fold_map comp_def del: upt_Suc)

lemma region_labels_many_rows:
  "region_labels many_rows = map (\<lambda>i. Str (''Region '' @ digits i)) [1 ..< 32]"
  using regions_eq_labels [of stringToNumber 2020 many_rows, symmetric]
  by (simp add: transformer_many_rows comp_def del: upt_Suc)

lemma digits_11: "digits 11 = ''11''"
  by code_simp

lemma digits_1: "digits (Suc 0) = ''1''"
  by code_simp

lemma transformer_region_11:
  "transformer stringToNumber 2020 [region_row 11] =
     [\<lparr>region = Str ''Region 11'', armsTrade = Number (Fin 1)\<rparr>]"
  by (simp add: transformer_eval region_row_def yearKey_2020 stringToNumber_1000 fl_eval
        digits_11)

lemma total_region_11:
  "totalOf stringToNumber (transformer stringToNumber 2020 [region_row 11]) = Fin 1"
  by (simp add: transformer_region_11 totalOf_def d3_sum_def fl_eval)

lemma region_labels_region_11: "region_labels [region_row 11] = [Str ''Region 11'']"
  using regions_eq_labels [of stringToNumber 2020 "[region_row 11]", symmetric]
  by (simp add: transformer_region_11)

subsection \<open>Sums\<close>

lemma armsTrade_in_range:
  assumes "1950 \<le> selectedYear" and "selectedYear \<le> 2023"
    and "x \<in> set (transformer toNumber selectedYear data)"
  shows "\<exists>n. armsTrade x = Number n \<and> n \<noteq> NaN \<and> (\<forall>q. n = Fin q \<longrightarrow> is_grid q)"
proof -
  obtain d0 where "armsTrade x = or_zero (transformRow toNumber d0 (yearKey selectedYear))"
    using datum_has_first_row [OF assms(3)] by blast
  then have "armsTrade x = scaleCell toNumber (d0 (yearKey selectedYear))"
    using assms(1,2) by (simp add: transformRow_year or_zero_scaleCell)
  then show ?thesis
    using scaleCell_grid [of toNumber "d0 (yearKey selectedYear)"] by auto
qed

lemma jsadd_not_Fin: "\<forall>q. a \<noteq> Fin q \<Longrightarrow> jsadd a b \<noteq> Fin c"
  by (cases a; cases b) auto

lemma jsadd_PInf_not_Fin: "jsadd a PInf \<noteq> Fin c"
  by (cases a) auto

lemma min_subnormal_small: "min_subnormal \<le> 1 / 18446744073709551616"
proof -
  have "(2::rat) powi emin \<le> 2 powi (- 64)"
    by (intro power_int_increasing) (simp_all add: emin_def)
  then show ?thesis by (simp add: min_subnormal_def power_int_minus_divide)
qed

lemma jsadd_grid:
  assumes "is_grid a" and "is_grid b" and "0 \<le> a" and "0 \<le> b"
    and "jsadd (Fin a) (Fin b) = Fin c"
  shows "is_grid c \<and> 0 \<le> c \<and> \<bar>c - (a + b)\<bar> \<le> (a + b) / 9007199254740992"
proof -
  have c: "c = nearest (a + b)" using assms(5) by (simp add: fl_Fin_iff)
  have g: "is_grid (a + b)" using assms(1,2) by (rule is_grid_add)
  have "\<bar>nearest (a + b) - (a + b)\<bar> \<le> \<bar>a + b\<bar> / 9007199254740992"
    by (rule nearest_grid_rel [OF g])
  moreover have "\<bar>a + b\<bar> = a + b" using assms(3,4) by simp
  ultimately show ?thesis
    using assms(3,4) by (simp add: c is_grid_nearest nearest_nonneg)
qed

lemma sum_step:
  fixes K S s q t :: rat
  assumes K: "0 \<le> K" "K \<le> 4294967296" and S: "0 \<le> S" and q: "0 \<le> q"
    and ih: "\<bar>s - S\<bar> \<le> K * S / 4503599627370496"
    and step: "\<bar>t - (s + q)\<bar> \<le> (s + q) / 9007199254740992"
  shows "\<bar>t - (S + q)\<bar> \<le> (K + 1) * (S + q) / 4503599627370496"
proof -
  define P where "P = K * S"
  define Q where "Q = K * q"
  have P: "0 \<le> P" "P \<le> 4294967296 * S"
    using K S by (simp_all add: P_def mult_right_mono)
  have Q: "0 \<le> Q" using K q by (simp add: Q_def)
  have e: "(K + 1) * (S + q) = P + Q + S + q" by (simp add: P_def Q_def algebra_simps)
  have ih': "\<bar>s - S\<bar> \<le> P / 4503599627370496" using ih by (simp add: P_def)
  have step': "\<bar>t - (s + q)\<bar> \<le> s / 9007199254740992 + q / 9007199254740992"
    using step by (simp only: add_divide_distrib)
  have "\<bar>t - (S + q)\<bar> \<le> P / 4503599627370496 + Q / 4503599627370496 +
          S / 4503599627370496 + q / 4503599627370496"
    using ih' step' P Q S q by linarith
  then have "\<bar>t - (S + q)\<bar> \<le> (P + Q + S + q) / 4503599627370496"
    by (simp only: add_divide_distrib)
  then show ?thesis by (simp only: e)
qed

lemma d3_sum_float:
  fixes g :: "'a \<Rightarrow> jsval"
  assumes "\<forall>v\<in>set vs. nonneg (to_number toNumber (g v)) \<and>
                        (\<forall>q. to_number toNumber (g v) = Fin q \<longrightarrow> is_grid q)"
    and "fold (\<lambda>v s. let value = to_number toNumber (g v)
                      in if truthy_num value then jsadd s value else s) vs (Fin 0) = Fin t"
    and "length vs \<le> 4294967296"
  shows "(\<forall>v\<in>set vs. \<exists>q. to_number toNumber (g v) = Fin q \<and> 0 \<le> q) \<and>
         is_grid t \<and> 0 \<le> t \<and>
         0 \<le> sum_list (map (\<lambda>v. fin_of (to_number toNumber (g v))) vs) \<and>
         \<bar>t - sum_list (map (\<lambda>v. fin_of (to_number toNumber (g v))) vs)\<bar> \<le>
           of_nat (length vs) * sum_list (map (\<lambda>v. fin_of (to_number toNumber (g v))) vs)
             / 4503599627370496"
  using assms
proof (induction vs arbitrary: t rule: rev_induct)
  case Nil
  then show ?case by (simp add: is_grid_0)
next
  case (snoc x xs)
  let ?val = "\<lambda>v. to_number toNumber (g v)"
  let ?F = "\<lambda>v s. let value = to_number toNumber (g v)
                 in if truthy_num value then jsadd s value else s"
  let ?S = "sum_list (map (\<lambda>v. fin_of (?val v)) xs)"
  have vals: "\<forall>v\<in>set xs. nonneg (?val v) \<and> (\<forall>q. ?val v = Fin q \<longrightarrow> is_grid q)"
    using snoc.prems(1) by simp
  have x: "nonneg (?val x)" "\<forall>q. ?val x = Fin q \<longrightarrow> is_grid q" using snoc.prems(1) by simp_all
  have len: "length xs \<le> 4294967296" using snoc.prems(3) by simp
  have K: "(0::rat) \<le> of_nat (length xs)" "(of_nat (length xs) :: rat) \<le> 4294967296"
  proof -
    show "(0::rat) \<le> of_nat (length xs)" by simp
    have "(of_nat (length xs) :: rat) \<le> of_nat 4294967296" using len by (simp only: of_nat_le_iff)
    then show "(of_nat (length xs) :: rat) \<le> 4294967296" by simp
  qed
  have step: "?F x (fold ?F xs (Fin 0)) = Fin t" using snoc.prems(2) by simp
  show ?case
  proof (cases "?val x")
    case NaN
    then show ?thesis using x by simp
  next
    case NInf
    then show ?thesis using x by simp
  next
    case PInf
    then have "jsadd (fold ?F xs (Fin 0)) PInf = Fin t" using step by (simp add: Let_def)
    then show ?thesis by (simp add: jsadd_PInf_not_Fin)
  next
    case (Fin q)
    have q: "0 \<le> q" "is_grid q" using x Fin by simp_all
    have all: "\<forall>v\<in>set xs. \<exists>q. ?val v = Fin q \<and> 0 \<le> q \<Longrightarrow>
               \<forall>v\<in>set (xs @ [x]). \<exists>q. ?val v = Fin q \<and> 0 \<le> q"
      using Fin q(1) by simp
    have Sx: "sum_list (map (\<lambda>v. fin_of (?val v)) (xs @ [x])) = ?S + q" using Fin by simp
    have Kx: "(of_nat (length (xs @ [x])) :: rat) = of_nat (length xs) + 1" by simp
    show ?thesis
    proof (cases "q = 0")
      case True
      then have "fold ?F xs (Fin 0) = Fin t" using step Fin by (simp add: Let_def)
      from snoc.IH [OF vals this len]
      have ih: "\<forall>v\<in>set xs. \<exists>q. ?val v = Fin q \<and> 0 \<le> q" "is_grid t" "0 \<le> t" "0 \<le> ?S"
        "\<bar>t - ?S\<bar> \<le> of_nat (length xs) * ?S / 4503599627370496" by simp_all
      have "\<bar>t - (t + q)\<bar> \<le> (t + q) / 9007199254740992" using True ih(3) by simp
      from sum_step [OF K ih(4) q(1) ih(5) this]
      have "\<bar>t - (?S + q)\<bar> \<le> (of_nat (length xs) + 1) * (?S + q) / 4503599627370496" .
      then have b: "\<bar>t - sum_list (map (\<lambda>v. fin_of (?val v)) (xs @ [x]))\<bar> \<le>
           of_nat (length (xs @ [x])) * sum_list (map (\<lambda>v. fin_of (?val v)) (xs @ [x]))
             / 4503599627370496"
        by (simp only: Sx Kx)
      have "0 \<le> sum_list (map (\<lambda>v. fin_of (?val v)) (xs @ [x]))"
        using ih(4) q(1) by (simp only: Sx)
      with all [OF ih(1)] ih(2,3) b show ?thesis by blast
    next
      case False
      then have j: "jsadd (fold ?F xs (Fin 0)) (Fin q) = Fin t"
        using step Fin by (simp add: Let_def)
      then obtain s where s: "fold ?F xs (Fin 0) = Fin s"
        using jsadd_not_Fin [of "fold ?F xs (Fin 0)" "Fin q" t] by blast
      from snoc.IH [OF vals s len]
      have ih: "\<forall>v\<in>set xs. \<exists>q. ?val v = Fin q \<and> 0 \<le> q" "is_grid s" "0 \<le> s" "0 \<le> ?S"
        "\<bar>s - ?S\<bar> \<le> of_nat (length xs) * ?S / 4503599627370496" by simp_all
      have "jsadd (Fin s) (Fin q) = Fin t" using j s by simp
      from jsadd_grid [OF ih(2) q(2) ih(3) q(1) this]
      have t: "is_grid t" "0 \<le> t" "\<bar>t - (s + q)\<bar> \<le> (s + q) / 9007199254740992" by simp_all
      from sum_step [OF K ih(4) q(1) ih(5) t(3)]
      have "\<bar>t - (?S + q)\<bar> \<le> (of_nat (length xs) + 1) * (?S + q) / 4503599627370496" .
      then have b: "\<bar>t - sum_list (map (\<lambda>v. fin_of (?val v)) (xs @ [x]))\<bar> \<le>
           of_nat (length (xs @ [x])) * sum_list (map (\<lambda>v. fin_of (?val v)) (xs @ [x]))
             / 4503599627370496"
        by (simp only: Sx Kx)
      have "0 \<le> sum_list (map (\<lambda>v. fin_of (?val v)) (xs @ [x]))"
        using ih(4) q(1) by (simp only: Sx)
      with all [OF ih(1)] t(1,2) b show ?thesis by blast
    qed
  qed
qed

lemma percent_bound:
  assumes v: "0 \<le> v" and t: "0 < t" and r: "v \<le> 2 * t"
  shows "\<exists>p. jsmul (jsdiv (Fin v) (Fin t)) (Fin 100) = Fin p \<and> 0 \<le> p \<and> p \<le> 1000 \<and>
             \<bar>p - 100 * (v / t)\<bar> \<le> 201 * (v / t) / 9007199254740992 + 51 * min_subnormal"
proof -
  define x where "x = v / t"
  have x0: "0 \<le> x" using v t by (simp add: x_def)
  have x2: "x \<le> 2" using r t by (simp add: x_def pos_divide_le_eq)
  have ax: "\<bar>x\<bar> = x" using x0 by simp
  have m: "0 < min_subnormal" "min_subnormal \<le> 1 / 18446744073709551616"
    by (rule min_subnormal_pos) (rule min_subnormal_small)
  have "\<bar>x\<bar> \<le> 1000000000" using x0 x2 by linarith
  from fl_small [OF this] obtain q where
    q: "fl x = Fin q" "\<bar>q - x\<bar> \<le> x / 9007199254740992 + min_subnormal / 2"
    unfolding ax by blast
  have q0: "0 \<le> q" using fl_Fin_bounds [OF q(1)] x0 by simp
  have q4: "q \<le> 4" using q(2) x0 x2 m by linarith
  define y where "y = q * 100"
  have y: "0 \<le> y" "y \<le> 400" "y = 100 * q" using q0 q4 by (simp_all add: y_def)
  have ay: "\<bar>y\<bar> = y" using y(1) by simp
  have "\<bar>y\<bar> \<le> 1000000000" using y by linarith
  from fl_small [OF this] obtain p where
    p: "fl y = Fin p" "\<bar>p - y\<bar> \<le> y / 9007199254740992 + min_subnormal / 2"
    unfolding ay by blast
  have p0: "0 \<le> p" using fl_Fin_bounds [OF p(1)] y(1) by simp
  have "jsdiv (Fin v) (Fin t) = Fin q" using t q(1) by (simp add: x_def)
  then have "jsmul (jsdiv (Fin v) (Fin t)) (Fin 100) = Fin p" using p(1) by (simp add: y_def)
  moreover have "p \<le> 1000" using p(2) y m by linarith
  moreover have "\<bar>p - 100 * x\<bar> \<le> 201 * x / 9007199254740992 + 51 * min_subnormal"
    using p(2) q(2) y(3) x0 m by linarith
  ultimately show ?thesis using p0 unfolding x_def by blast
qed

lemma toFixed_2_bound:
  assumes "0 \<le> p" and "p \<le> 1000"
  shows "toFixed 2 (Fin p) = TFixed False (nat \<lfloor>p * 100 + 1 / 2\<rfloor>) 2 \<and>
         \<bar>of_nat (nat \<lfloor>p * 100 + 1 / 2\<rfloor>) - 100 * p\<bar> \<le> (1 / 2 :: rat)"
proof -
  define n where "n = \<lfloor>p * 100 + 1 / 2\<rfloor>"
  have "0 \<le> p * 100 + 1 / 2" using assms(1) by simp
  then have n0: "0 \<le> n" unfolding n_def by simp
  have lo: "of_int n \<le> p * 100 + 1 / 2" unfolding n_def by (rule of_int_floor_le)
  have hi: "p * 100 + 1 / 2 < of_int n + 1"
    unfolding n_def using floor_correct [of "p * 100 + 1 / 2"] by simp
  have c: "(of_nat (nat n) :: rat) = of_int n" using n0 by simp
  have "\<not> (10 ^ 21 \<le> \<bar>p\<bar>)" using assms by simp
  then have "toFixed 2 (Fin p) = TFixed False (nat n) 2" using assms(1) by (simp add: n_def)
  moreover have "\<bar>of_nat (nat n) - 100 * p\<bar> \<le> (1 / 2 :: rat)" unfolding c using lo hi by linarith
  ultimately show ?thesis unfolding n_def by blast
qed

lemma fold_add_text:
  "\<forall>v\<in>set vs. text_value (f v) = Some (h v) \<Longrightarrow>
   fold (\<lambda>v s. add_text (f v) s) vs (Some a) = Some (a + sum_list (map h vs))"
  by (induction vs arbitrary: a) (simp_all add: add.assoc)

lemma percentage_sum_map:
  "percentage_sum entries = fold (\<lambda>p s. add_text p s) (map percentage entries) (Some 0)"
  by (simp add: percentage_sum_def fold_map comp_def)

lemma percentages_legendInfo:
  "map percentage (fst (legendInfo toNumber t regionData)) =
     map (\<lambda>d. toFixed 2 (percent toNumber t d)) regionData"
proof -
  obtain cs dm where c: "colorScale_each [] (map region regionData) = (cs, dm)"
    by (cases "colorScale_each [] (map region regionData)")
  have len: "length cs = length regionData"
    using colorScale_each_length [of "[]" "map region regionData"] c by simp
  have "map percentage (map2 (legendEntryOf toNumber t) regionData cs)
          = map ((\<lambda>d. toFixed 2 (percent toNumber t d)) \<circ> fst) (zip regionData cs)"
    by (simp add: legendEntryOf_def case_prod_beta comp_def)
  also have "\<dots> = map (\<lambda>d. toFixed 2 (percent toNumber t d)) (map fst (zip regionData cs))"
    by simp
  also have "\<dots> = map (\<lambda>d. toFixed 2 (percent toNumber t d)) regionData"
    using len by simp
  finally show ?thesis by (simp add: legendInfo_def c)
qed

lemma length_legendInfo: "length (fst (legendInfo toNumber t regionData)) = length regionData"
  using percentages_legendInfo [of toNumber t regionData, THEN arg_cong, of length] by simp

lemma percentage_sum_legendInfo:
  "percentage_sum (fst (legendInfo toNumber t regionData)) =
     fold (\<lambda>d s. add_text (toFixed 2 (percent toNumber t d)) s) regionData (Some 0)"
  by (simp only: percentage_sum_map percentages_legendInfo fold_map comp_def)

lemma sum_list_abs_diff:
  fixes f g :: "'a \<Rightarrow> rat"
  shows "\<forall>v\<in>set vs. \<bar>f v - g v\<bar> \<le> h v \<Longrightarrow>
         \<bar>sum_list (map f vs) - sum_list (map g vs)\<bar> \<le> sum_list (map h vs)"
proof (induction vs)
  case Nil
  then show ?case by simp
next
  case (Cons v vs)
  have a: "\<bar>f v - g v\<bar> \<le> h v" using Cons.prems by simp
  have b: "\<bar>sum_list (map f vs) - sum_list (map g vs)\<bar> \<le> sum_list (map h vs)"
    using Cons by simp
  have "\<bar>(f v + sum_list (map f vs)) - (g v + sum_list (map g vs))\<bar>
          \<le> \<bar>f v - g v\<bar> + \<bar>sum_list (map f vs) - sum_list (map g vs)\<bar>"
    by linarith
  also have "\<dots> \<le> h v + sum_list (map h vs)" using a b by linarith
  finally show ?case by simp
qed

lemma elem_le_sum_list:
  fixes f :: "'a \<Rightarrow> rat"
  shows "\<forall>v\<in>set vs. 0 \<le> f v \<Longrightarrow> x \<in> set vs \<Longrightarrow> f x \<le> sum_list (map f vs)"
proof (induction vs)
  case Nil
  then show ?case by simp
next
  case (Cons v vs)
  have nn: "0 \<le> sum_list (map f vs)" by (rule sum_list_nonneg) (use Cons.prems(1) in auto)
  show ?case
  proof (cases "x = v")
    case True
    then show ?thesis using nn by simp
  next
    case False
    then have "f x \<le> sum_list (map f vs)" using Cons by simp
    moreover have "0 \<le> f v" using Cons.prems(1) by simp
    ultimately show ?thesis by simp
  qed
qed

lemma sum_list_div:
  fixes f :: "'a \<Rightarrow> rat"
  shows "sum_list (map (\<lambda>v. f v / t) vs) = sum_list (map f vs) / t"
  by (induction vs) (simp_all add: add_divide_distrib)

lemma sum_list_affine:
  fixes f :: "'a \<Rightarrow> rat"
  shows "sum_list (map (\<lambda>v. a * f v / b + c) vs) =
           a * sum_list (map f vs) / b + of_nat (length vs) * c"
  by (induction vs) (simp_all add: algebra_simps add_divide_distrib)

lemma sum_list_of_nat:
  "sum_list (map (\<lambda>v. (of_nat (f v) :: rat)) vs) = of_nat (sum_list (map f vs))"
  by (induction vs) simp_all

lemma int_near:
  fixes M :: int and n :: nat
  assumes "\<bar>(of_int M :: rat) - 10000\<bar> < of_nat n / 2 + 1 / 2"
  shows "\<bar>(of_int M :: rat) - 10000\<bar> \<le> of_nat n / 2"
proof -
  define a :: rat where "a = of_int \<bar>M - 10000\<bar>"
  define b :: rat where "b = of_int (int n)"
  have a: "a = \<bar>of_int M - 10000\<bar>" by (simp add: a_def)
  have b: "b = of_nat n" by (simp add: b_def)
  have "a < b / 2 + 1 / 2" using assms by (simp only: a b)
  then have "a * 2 < b + 1" by linarith
  then have "(of_int (\<bar>M - 10000\<bar> * 2) :: rat) < of_int (int n + 1)" by (simp add: a_def b_def)
  then have "\<bar>M - 10000\<bar> * 2 < int n + 1" by (simp only: of_int_less_iff)
  then have "\<bar>M - 10000\<bar> * 2 \<le> int n" by simp
  then have "(of_int (\<bar>M - 10000\<bar> * 2) :: rat) \<le> of_int (int n)" by (simp only: of_int_le_iff)
  then have "a * 2 \<le> b" by (simp add: a_def b_def)
  then have "a \<le> b / 2" by linarith
  then show ?thesis by (simp only: a b)
qed

lemma percentage_sum_bound:
  fixes t :: rat
  assumes vals: "\<forall>v\<in>set rd. \<exists>q. to_number toNumber (armsTrade v) = Fin q \<and> 0 \<le> q"
    and t: "0 < t"
    and close: "\<bar>t - sum_list (map (\<lambda>v. fin_of (to_number toNumber (armsTrade v))) rd)\<bar> \<le>
                 of_nat (length rd) * sum_list (map (\<lambda>v. fin_of (to_number toNumber (armsTrade v))) rd)
                   / 4503599627370496"
    and len: "length rd \<le> 4294967296"
  shows "\<exists>s. percentage_sum (fst (legendInfo toNumber (Fin t) rd)) = Some s \<and>
             \<bar>s - 100\<bar> \<le> of_nat (length rd) / 200"
proof -
  let ?q = "\<lambda>v. fin_of (to_number toNumber (armsTrade v))"
  let ?p = "\<lambda>v. fin_of (percent toNumber (Fin t) v)"
  let ?n = "\<lambda>v. nat \<lfloor>?p v * 100 + 1 / 2\<rfloor>"
  define S where "S = sum_list (map ?q rd)"
  define K :: rat where "K = of_nat (length rd)"
  define P where "P = K * S"
  define rho where "rho = S / t"
  define R where "R = K * rho"
  define Z where "Z = K * min_subnormal"
  have m: "0 < min_subnormal" "min_subnormal \<le> 1 / 18446744073709551616"
    by (rule min_subnormal_pos) (rule min_subnormal_small)
  have q0: "\<forall>v\<in>set rd. 0 \<le> ?q v" using vals by auto
  have S0: "0 \<le> S" unfolding S_def by (rule sum_list_nonneg) (use q0 in auto)
  have K: "0 \<le> K" "K \<le> 4294967296"
  proof -
    show "0 \<le> K" by (simp add: K_def)
    have "(of_nat (length rd) :: rat) \<le> of_nat 4294967296" using len by (simp only: of_nat_le_iff)
    then show "K \<le> 4294967296" by (simp add: K_def)
  qed
  have P: "0 \<le> P" "P \<le> 4294967296 * S" using K S0 by (simp_all add: P_def mult_right_mono)
  have cl: "\<bar>t - S\<bar> \<le> P / 4503599627370496" using close by (simp add: S_def K_def P_def)
  have St: "S \<le> 2 * t" using cl P S0 by linarith
  have rho: "0 \<le> rho" "rho \<le> 2"
    using S0 St t by (simp_all add: rho_def pos_divide_le_eq)
  have R: "0 \<le> R" "R \<le> 8589934592"
  proof -
    show "0 \<le> R" using K rho by (simp add: R_def)
    have "K * rho \<le> K * 2" using K rho by (intro mult_left_mono) simp_all
    then show "R \<le> 8589934592" using K by (simp add: R_def)
  qed
  have Z: "0 \<le> Z" "Z \<le> 4294967296 * min_subnormal"
    using K m by (simp_all add: Z_def mult_right_mono)
  have rho1: "\<bar>rho - 1\<bar> \<le> R / 4503599627370496"
  proof -
    have "rho - 1 = (S - t) / t" using t by (simp add: rho_def diff_divide_distrib)
    then have "\<bar>rho - 1\<bar> = \<bar>t - S\<bar> / t" using t by (simp add: abs_minus_commute)
    also have "\<dots> \<le> (P / 4503599627370496) / t" using cl t by (intro divide_right_mono) simp_all
    also have "\<dots> = R / 4503599627370496" by (simp add: P_def R_def rho_def)
    finally show ?thesis .
  qed
  have each: "\<forall>v\<in>set rd. percent toNumber (Fin t) v = Fin (?p v) \<and> 0 \<le> ?p v \<and> ?p v \<le> 1000 \<and>
                \<bar>?p v - 100 * (?q v / t)\<bar> \<le>
                  201 * (?q v / t) / 9007199254740992 + 51 * min_subnormal"
  proof
    fix v assume v: "v \<in> set rd"
    obtain q where q: "to_number toNumber (armsTrade v) = Fin q" "0 \<le> q" using vals v by blast
    have "?q v \<le> sum_list (map ?q rd)" using q0 v by (rule elem_le_sum_list)
    then have "q \<le> 2 * t" using St q by (simp add: S_def)
    from percent_bound [OF q(2) t this] obtain p where
      "jsmul (jsdiv (Fin q) (Fin t)) (Fin 100) = Fin p" "0 \<le> p" "p \<le> 1000"
      "\<bar>p - 100 * (q / t)\<bar> \<le> 201 * (q / t) / 9007199254740992 + 51 * min_subnormal"
      by blast
    then show "percent toNumber (Fin t) v = Fin (?p v) \<and> 0 \<le> ?p v \<and> ?p v \<le> 1000 \<and>
                \<bar>?p v - 100 * (?q v / t)\<bar> \<le>
                  201 * (?q v / t) / 9007199254740992 + 51 * min_subnormal"
      using q by (simp add: percent_def)
  qed
  have texts: "\<forall>v\<in>set rd. text_value (toFixed 2 (percent toNumber (Fin t) v)) =
                  Some (of_nat (?n v) / 100)"
  proof
    fix v assume v: "v \<in> set rd"
    have "toFixed 2 (Fin (?p v)) = TFixed False (?n v) 2"
      using toFixed_2_bound [of "?p v"] each v by blast
    moreover have "percent toNumber (Fin t) v = Fin (?p v)" using each v by blast
    ultimately show "text_value (toFixed 2 (percent toNumber (Fin t) v)) =
                  Some (of_nat (?n v) / 100)" by simp
  qed
  have round: "\<forall>v\<in>set rd. \<bar>of_nat (?n v) - 100 * ?p v\<bar> \<le> (1 / 2 :: rat)"
    using toFixed_2_bound each by blast
  define A where "A = sum_list (map (\<lambda>v. (of_nat (?n v) :: rat)) rd)"
  define B where "B = sum_list (map (\<lambda>v. 100 * ?p v) rd)"
  define C where "C = sum_list (map (\<lambda>v. 10000 * (?q v / t)) rd)"
  have "fold (\<lambda>d s. add_text (toFixed 2 (percent toNumber (Fin t) d)) s) rd (Some 0) =
          Some (0 + sum_list (map (\<lambda>v. of_nat (?n v) / 100) rd))"
    using texts by (rule fold_add_text)
  moreover have "sum_list (map (\<lambda>v. of_nat (?n v) / 100) rd) = A / 100"
    unfolding A_def by (rule sum_list_div)
  ultimately have sum: "percentage_sum (fst (legendInfo toNumber (Fin t) rd)) = Some (A / 100)"
    by (simp add: percentage_sum_legendInfo)
  have div: "sum_list (map (\<lambda>v. ?q v / t) rd) = rho"
    unfolding rho_def S_def by (rule sum_list_div)
  have AB: "\<bar>A - B\<bar> \<le> K / 2"
  proof -
    have "\<bar>A - B\<bar> \<le> sum_list (map (\<lambda>v. 1 / 2) rd)"
      unfolding A_def B_def using round by (rule sum_list_abs_diff)
    also have "\<dots> = K / 2" by (simp add: sum_list_triv K_def)
    finally show ?thesis .
  qed
  have Crho: "C = 10000 * rho"
  proof -
    have "C = 10000 * sum_list (map (\<lambda>v. ?q v / t) rd)"
      unfolding C_def by (rule sum_list_const_mult)
    then show ?thesis by (simp only: div)
  qed
  have BC: "\<bar>B - C\<bar> \<le> 20100 * rho / 9007199254740992 + 5100 * Z"
  proof -
    have "\<forall>v\<in>set rd. \<bar>100 * ?p v - 10000 * (?q v / t)\<bar> \<le>
            20100 * (?q v / t) / 9007199254740992 + 5100 * min_subnormal"
    proof
      fix v assume "v \<in> set rd"
      then have "\<bar>?p v - 100 * (?q v / t)\<bar> \<le>
                  201 * (?q v / t) / 9007199254740992 + 51 * min_subnormal" using each by blast
      then show "\<bar>100 * ?p v - 10000 * (?q v / t)\<bar> \<le>
            20100 * (?q v / t) / 9007199254740992 + 5100 * min_subnormal" by linarith
    qed
    then have "\<bar>B - C\<bar> \<le> sum_list (map (\<lambda>v. 20100 * (?q v / t) / 9007199254740992
                                               + 5100 * min_subnormal) rd)"
      unfolding B_def C_def by (rule sum_list_abs_diff)
    also have "\<dots> = 20100 * sum_list (map (\<lambda>v. ?q v / t) rd) / 9007199254740992
                      + of_nat (length rd) * (5100 * min_subnormal)"
      by (rule sum_list_affine)
    also have "\<dots> = 20100 * rho / 9007199254740992 + 5100 * Z"
      by (simp add: div Z_def K_def)
    finally show ?thesis .
  qed
  have C1: "\<bar>C - 10000\<bar> \<le> 10000 * (R / 4503599627370496)"
    unfolding Crho using rho1 by linarith
  have near: "\<bar>A - 10000\<bar> < K / 2 + 1 / 2"
    using AB BC C1 rho R Z m by linarith
  have Aint: "A = of_int (int (sum_list (map ?n rd)))"
    unfolding A_def by (simp add: sum_list_of_nat)
  have "\<bar>A - 10000\<bar> \<le> K / 2"
    using near int_near [of "int (sum_list (map ?n rd))" "length rd"]
    unfolding Aint K_def by simp
  then have "\<bar>A / 100 - 100\<bar> \<le> K / 200" by linarith
  then have "\<bar>A / 100 - 100\<bar> \<le> of_nat (length rd) / 200" by (simp only: K_def)
  with sum show ?thesis by blast
qed

lemma fl_5_8: "fl (5 / 8) = Fin (5 / 8)"
  using fl_int_scaled [of 5 3] by simp

lemma fl_3_8: "fl (3 / 8) = Fin (3 / 8)"
  using fl_int_scaled [of 3 3] by simp

lemma fl_125_2: "fl (125 / 2) = Fin (125 / 2)"
  using fl_int_scaled [of 125 1] by simp

lemma fl_75_2: "fl (75 / 2) = Fin (75 / 2)"
  using fl_int_scaled [of 75 1] by simp

lemma floor_6250: "\<lfloor>(12501 / 2 :: rat)\<rfloor> = 6250"
  by (rule floor_unique) simp_all

lemma floor_3750: "\<lfloor>(7501 / 2 :: rat)\<rfloor> = 3750"
  by (rule floor_unique) simp_all

lemma percentages_table_2020:
  "map percentage (legendData (useEffect stringToNumber 2020 (Resolved table) initial_ui)) =
     [TFixed False 6250 2, TFixed False 3750 2]"
proof -
  have nz: "totalOf stringToNumber (transformer stringToNumber 2020 table) \<noteq> Fin 0"
    by (simp add: total_table_2020)
  have "map percentage (legendData (useEffect stringToNumber 2020 (Resolved table) initial_ui)) =
          map (\<lambda>d. toFixed 2 (percent stringToNumber (Fin 8) d))
            (transformer stringToNumber 2020 table)"
    by (simp only: legendData_useEffect [OF nz] percentages_legendInfo total_table_2020)
  then show ?thesis
    by (simp add: transformer_table_2020 percent_def fl_5_8 fl_3_8 fl_125_2 fl_75_2
          floor_6250 floor_3750)
qed

lemma percent_31:
  "toFixed 2 (percent toNumber (Fin 31) \<lparr>region = r, armsTrade = Number (Fin 1)\<rparr>) =
     TFixed False 323 2"
proof -
  have m: "0 < min_subnormal" "min_subnormal \<le> 1 / 18446744073709551616"
    by (rule min_subnormal_pos) (rule min_subnormal_small)
  obtain p where p: "jsmul (jsdiv (Fin 1) (Fin 31)) (Fin 100) = Fin p" "0 \<le> p" "p \<le> 1000"
    "\<bar>p - 100 * (1 / 31)\<bar> \<le> 201 * (1 / 31) / 9007199254740992 + 51 * min_subnormal"
    using percent_bound [of 1 31] by auto
  have "of_int 323 \<le> p * 100 + 1 / 2" "p * 100 + 1 / 2 < of_int 323 + 1"
    using p(4) m by linarith+
  then have "\<lfloor>p * 100 + 1 / 2\<rfloor> = 323" by (rule floor_unique)
  then have n: "nat \<lfloor>p * 100 + 1 / 2\<rfloor> = 323" by simp
  have "toFixed 2 (Fin p) = TFixed False (nat \<lfloor>p * 100 + 1 / 2\<rfloor>) 2"
    using toFixed_2_bound [OF p(2,3)] by blast
  then have "toFixed 2 (Fin p) = TFixed False 323 2" by (simp only: n)
  moreover have "percent toNumber (Fin 31) \<lparr>region = r, armsTrade = Number (Fin 1)\<rparr> = Fin p"
    unfolding percent_def using p(1) by simp
  ultimately show ?thesis by (simp only:)
qed

lemma percentages_many_rows:
  "map percentage (legendData (useEffect stringToNumber 2020 (Resolved many_rows) initial_ui)) =
     map (\<lambda>i. TFixed False 323 2) [1 ..< 32]"
proof -
  have nz: "totalOf stringToNumber (transformer stringToNumber 2020 many_rows) \<noteq> Fin 0"
    by (simp add: total_many_rows)
  have "map percentage (legendData (useEffect stringToNumber 2020 (Resolved many_rows) initial_ui)) =
          map (\<lambda>d. toFixed 2 (percent stringToNumber (Fin 31) d))
            (transformer stringToNumber 2020 many_rows)"
    by (simp only: legendData_useEffect [OF nz] percentages_legendInfo total_many_rows)
  then show ?thesis
    by (simp add: transformer_many_rows comp_def percent_31 del: upt_Suc)
qed

lemma fold_add_text_const:
  "fold (\<lambda>p s. add_text p s) (map (\<lambda>i. TFixed False n 2) xs) (Some a) =
     Some (a + of_nat (length xs) * (of_nat n / 100))"
  by (induction xs arbitrary: a) (simp_all add: algebra_simps)

section \<open>The claims\<close>

text \<open>
  C2. For every row and every year from 1950 to 2023, the transformer converts the cell
  to a number and divides it by 1000; a cell that is missing or does not convert to a
  number (the conversion gives NaN) becomes exactly 0.
\<close>

theorem unit_conversion:
  assumes "i < length data" and "1950 \<le> year" and "year \<le> 2023"
  shows "(forEachRow toNumber data ! i) (yearKey year) =
           Number (if to_number toNumber ((data ! i) (yearKey year)) = NaN then Fin 0
                   else jsdiv (to_number toNumber ((data ! i) (yearKey year))) (Fin 1000))"
proof -
  have "(forEachRow toNumber data ! i) (yearKey year)
          = scaleCell toNumber ((data ! i) (yearKey year))"
    using assms by (simp add: forEachRow_def transformRow_year)
  then show ?thesis by (simp only: scaleCell_Number)
qed

theorem unit_conversion_witness:
  "(0::nat) < length table \<and> (1::nat) < length table \<and>
   (1950::nat) \<le> 2020 \<and> (2020::nat) \<le> 2023 \<and> (1950::nat) \<le> 2021 \<and> (2021::nat) \<le> 2023 \<and>
   (table ! 0) (yearKey 2020) = Str ''5000'' \<and>
   (forEachRow stringToNumber table ! 0) (yearKey 2020) = Number (Fin 5) \<and>
   (table ! 0) (yearKey 2021) = Str ''n/a'' \<and>
   (forEachRow stringToNumber table ! 0) (yearKey 2021) = Number (Fin 0) \<and>
   (table ! 1) (yearKey 2021) = Undefined \<and>
   (forEachRow stringToNumber table ! 1) (yearKey 2021) = Number (Fin 0)"
  using unit_conversion [of 0 table 2020 stringToNumber]
    unit_conversion [of 0 table 2021 stringToNumber]
    unit_conversion [of 1 table 2021 stringToNumber]
  by (simp add: table_def europe1_def asia_def csvRow_def yearKey_2020 yearKey_2021
        stringToNumber_5000 stringToNumber_word fl_eval)

text \<open>
  C3. No region label in the transformer's output is "World total" or "International
  organizations": the rows with these labels are removed before the grouping.
\<close>

theorem reserved_labels_excluded:
  assumes "x \<in> set (transformer toNumber selectedYear data)"
  shows "region x \<noteq> Str ''World total'' \<and> region x \<noteq> Str ''International organizations'' \<and>
         region ` set (transformer toNumber selectedYear data) =
           (\<lambda>d. d regionKey) ` set data - {Str ''World total'', Str ''International organizations''}"
proof -
  have labels: "region ` set (transformer toNumber selectedYear data) =
           (\<lambda>d. d regionKey) ` set data - {Str ''World total'', Str ''International organizations''}"
    unfolding set_regions_transformer by (auto simp: filteredData_def)
  then have "region x \<notin> {Str ''World total'', Str ''International organizations''}"
    using assms by blast
  with labels show ?thesis by simp
qed

theorem reserved_labels_excluded_witness:
  "\<lparr>region = Str ''Europe'', armsTrade = Number (Fin 5)\<rparr> \<in> set (transformer stringToNumber 2020 table) \<and>
   world \<in> set table \<and> world regionKey = Str ''World total'' \<and>
   Str ''Europe'' \<noteq> Str ''World total'' \<and> Str ''Europe'' \<noteq> Str ''International organizations''"
proof -
  have "\<lparr>region = Str ''Europe'', armsTrade = Number (Fin 5)\<rparr> \<in> set (transformer stringToNumber 2020 table)"
    by (simp add: transformer_table_2020)
  moreover have "world \<in> set table \<and> world regionKey = Str ''World total''"
    by (simp add: table_def world_def csvRow_def regionKey_def)
  ultimately show ?thesis
    using reserved_labels_excluded [of "\<lparr>region = Str ''Europe'', armsTrade = Number (Fin 5)\<rparr>" stringToNumber 2020 table]
    by simp
qed

text \<open>
  C4. When a region label occurs in several rows, the output has one datum for it, and
  that datum carries the selected-year value of the first of these rows (\<^verbatim>\<open>|| 0\<close>
  applied, which changes nothing for a year from 1950 to 2023); the later rows are not
  added to it.
\<close>

theorem first_occurrence_wins:
  assumes "find (\<lambda>d. d regionKey = r) data = Some d0"
    and "r \<noteq> Str ''World total''" and "r \<noteq> Str ''International organizations''"
  shows "filter (\<lambda>x. region x = r) (transformer toNumber selectedYear data) =
           [\<lparr>region = r, armsTrade = or_zero (transformRow toNumber d0 (yearKey selectedYear))\<rparr>] \<and>
         (1950 \<le> selectedYear \<and> selectedYear \<le> 2023 \<longrightarrow>
            or_zero (transformRow toNumber d0 (yearKey selectedYear)) =
              transformRow toNumber d0 (yearKey selectedYear))"
proof
  show "filter (\<lambda>x. region x = r) (transformer toNumber selectedYear data) =
           [\<lparr>region = r, armsTrade = or_zero (transformRow toNumber d0 (yearKey selectedYear))\<rparr>]"
    by (rule datum_of_first_row [OF assms])
  show "1950 \<le> selectedYear \<and> selectedYear \<le> 2023 \<longrightarrow>
            or_zero (transformRow toNumber d0 (yearKey selectedYear)) =
              transformRow toNumber d0 (yearKey selectedYear)"
    by (simp add: transformRow_year or_zero_scaleCell)
qed

theorem first_occurrence_wins_witness:
  "(1950::nat) \<le> 2020 \<and> (2020::nat) \<le> 2023 \<and>
   find (\<lambda>d. d regionKey = Str ''Europe'') table = Some europe1 \<and>
   europe2 \<in> set table \<and> europe2 regionKey = Str ''Europe'' \<and>
   transformRow stringToNumber europe1 (yearKey 2020) = Number (Fin 5) \<and>
   transformRow stringToNumber europe2 (yearKey 2020) = Number (Fin 2) \<and>
   filter (\<lambda>x. region x = Str ''Europe'') (transformer stringToNumber 2020 table) =
     [\<lparr>region = Str ''Europe'', armsTrade = Number (Fin 5)\<rparr>]"
  using first_occurrence_wins [of "Str ''Europe''" table europe1 stringToNumber 2020]
  by (simp add: table_def europe1_def europe2_def csvRow_def regionKey_def yearKey_2020
        transformRow_2020 scaleCell_def or_zero_def stringToNumber_5000 stringToNumber_2000
        fl_eval)

text \<open>
  C8, as amended. The output holds exactly one datum per distinct region label of the
  rows that are not excluded. The value is not always \<open>\<ge> 0\<close>: for a selected year from
  1950 to 2023 it is a number other than NaN, and it is \<open>\<ge> 0\<close> unless the cell of the
  region's first row converts to minus infinity or to a finite number whose thousandth
  lies below minus half the smallest positive double. A negative quotient that is nearer
  to zero than that rounds to zero, and the value is then 0.
\<close>

theorem one_datum_per_region:
  "distinct (map region (transformer toNumber selectedYear data)) \<and>
   region ` set (transformer toNumber selectedYear data) =
     (\<lambda>d. d regionKey) ` set (filteredData data) \<and>
   (1950 \<le> selectedYear \<and> selectedYear \<le> 2023 \<longrightarrow>
      (\<forall>x\<in>set (transformer toNumber selectedYear data). \<exists>d0 n.
          find (\<lambda>d. d regionKey = region x) data = Some d0 \<and>
          armsTrade x = Number n \<and> n \<noteq> NaN \<and>
          nonneg n = (case to_number toNumber (d0 (yearKey selectedYear)) of
                        Fin q \<Rightarrow> - (min_subnormal / 2) \<le> q / 1000
                      | NInf \<Rightarrow> False
                      | _ \<Rightarrow> True)))"
proof (intro conjI impI ballI)
  show "distinct (map region (transformer toNumber selectedYear data))"
    by (rule distinct_regions_transformer)
  show "region ` set (transformer toNumber selectedYear data) =
     (\<lambda>d. d regionKey) ` set (filteredData data)"
    by (rule set_regions_transformer)
next
  fix x
  assume range: "1950 \<le> selectedYear \<and> selectedYear \<le> 2023"
    and x: "x \<in> set (transformer toNumber selectedYear data)"
  obtain d0 where f: "find (\<lambda>d. d regionKey = region x) data = Some d0"
    and a: "armsTrade x = or_zero (transformRow toNumber d0 (yearKey selectedYear))"
    using datum_has_first_row [OF x] by blast
  have "armsTrade x = scaleCell toNumber (d0 (yearKey selectedYear))"
    using a range by (simp add: transformRow_year or_zero_scaleCell)
  then show "\<exists>d0 n. find (\<lambda>d. d regionKey = region x) data = Some d0 \<and>
          armsTrade x = Number n \<and> n \<noteq> NaN \<and>
          nonneg n = (case to_number toNumber (d0 (yearKey selectedYear)) of
                        Fin q \<Rightarrow> - (min_subnormal / 2) \<le> q / 1000
                      | NInf \<Rightarrow> False
                      | _ \<Rightarrow> True)"
    using f scaleCell_sign [of toNumber "d0 (yearKey selectedYear)"] by auto
qed

theorem one_datum_per_region_witness:
  "(1950::nat) \<le> 2020 \<and> (2020::nat) \<le> 2023 \<and>
   transformer stringToNumber 2020 table =
     [\<lparr>region = Str ''Europe'', armsTrade = Number (Fin 5)\<rparr>,
      \<lparr>region = Str ''Asia'', armsTrade = Number (Fin 3)\<rparr>] \<and>
   distinct (map region (transformer stringToNumber 2020 table)) \<and>
   find (\<lambda>d. d regionKey = Str ''Europe'') table = Some europe1 \<and>
   to_number stringToNumber (europe1 (yearKey 2020)) = Fin 5000 \<and>
   nonneg (Fin 5) \<and> - (min_subnormal / 2) \<le> (5000 / 1000 :: rat)"
proof -
  have "find (\<lambda>d. d regionKey = Str ''Europe'') table = Some europe1"
    by (simp add: table_def europe1_def csvRow_def regionKey_def)
  moreover have "to_number stringToNumber (europe1 (yearKey 2020)) = Fin 5000"
    by (simp add: europe1_def csvRow_def yearKey_2020 stringToNumber_5000)
  moreover have "- (min_subnormal / 2) \<le> (5000 / 1000 :: rat)"
    using min_subnormal_pos by simp
  ultimately show ?thesis
    using one_datum_per_region [of stringToNumber 2020 table]
    by (simp add: transformer_table_2020)
qed

theorem negative_value_counterexample:
  "transformer stringToNumber 2020 [deficit] =
     [\<lparr>region = Str ''Europe'', armsTrade = Number (Fin (- 5))\<rparr>] \<and>
   \<not> nonneg (Fin (- 5))"
  by (simp add: transformer_deficit)

text \<open>
  C5. When the total is 0, the surface holds the title and the text "No data available
  for this year" and no slice path, and nothing is written to the error log.
\<close>

theorem no_data_placeholder:
  assumes "totalOf toNumber (transformer toNumber selectedYear data) = Fin 0"
  shows "svg (useEffect toNumber selectedYear (Resolved data) u) =
           [title selectedYear,
            Text [(''x'', ''250''), (''y'', ''300''), (''text-anchor'', ''middle'')]
                 (Lit ''No data available for this year'')] \<and>
         \<not> list_ex has_path (svg (useEffect toNumber selectedYear (Resolved data) u)) \<and>
         console (useEffect toNumber selectedYear (Resolved data) u) = console u \<and>
         totalArmsTrade (useEffect toNumber selectedYear (Resolved data) u) = Fin 0"
  using assms
  by (simp add: useEffect_def then_callback_def Let_def placeholder_def has_path_title)

theorem no_data_placeholder_witness:
  "totalOf stringToNumber (transformer stringToNumber 2021 table) = Fin 0 \<and>
   svg (useEffect stringToNumber 2021 (Resolved table) initial_ui) =
           [title 2021,
            Text [(''x'', ''250''), (''y'', ''300''), (''text-anchor'', ''middle'')]
                 (Lit ''No data available for this year'')] \<and>
   \<not> list_ex has_path (svg (useEffect stringToNumber 2021 (Resolved table) initial_ui))"
  using no_data_placeholder [OF total_table_2021, of initial_ui]
  by (simp add: total_table_2021 has_path_title)

text \<open>
  C6, as amended. When the request fails, the failure is logged once, no slice, label or
  placeholder is drawn and one request has been made. The cycle is rendered in part,
  though: the surface has been cleared and holds the title of the selected year, which
  is appended before the request, while the legend and the total keep the values of the
  cycle before.
\<close>

theorem fetch_failure:
  "useEffect toNumber selectedYear (Rejected error) u =
     u\<lparr>svg := [title selectedYear],
       requests := requests u @ [dataUrl],
       console := console u @ [(''Error loading data:'', error)]\<rparr> \<and>
   \<not> list_ex has_path (svg (useEffect toNumber selectedYear (Rejected error) u)) \<and>
   legendData (useEffect toNumber selectedYear (Rejected error) u) = legendData u \<and>
   totalArmsTrade (useEffect toNumber selectedYear (Rejected error) u) = totalArmsTrade u"
  by (simp add: useEffect_rejected has_path_title)

theorem fetch_failure_counterexample:
  "svg (useEffect stringToNumber 2021 (Rejected ''Failed to fetch'')
          (useEffect stringToNumber 2020 (Resolved table) initial_ui)) = [title 2021] \<and>
   title 2021 = Text [(''x'', ''250''), (''y'', ''30''), (''text-anchor'', ''middle''),
           (''font-size'', ''20px''), (''font-weight'', ''bold''), (''fill'', ''#0db4de'')]
          (Lit ''Arms Imports by Region (2021)'') \<and>
   map percentage (legendData (useEffect stringToNumber 2021 (Rejected ''Failed to fetch'')
          (useEffect stringToNumber 2020 (Resolved table) initial_ui))) =
     [TFixed False 6250 2, TFixed False 3750 2]"
  by (simp add: useEffect_rejected percentages_table_2020 title_def yearKey_2021)

text \<open>
  C7. With the pointer at (100, 200), a pointer move stores the position (110, 210) in
  the tooltip state, and the tooltip element is then placed at left 120, top 220: 20px,
  not 10px, from the pointer in each axis, because the element adds 10 to the stored
  position once more. After the pointer enters at the same place, the element is at left
  110, top 210, 10px from the pointer.
\<close>

theorem mousemove_offset_twice:
  "tooltip_x (mousemove \<lparr>pageX = 100, pageY = 200\<rparr>
      (mouseenter ''Europe'' \<lparr>pageX = 100, pageY = 200\<rparr> (tooltip initial_ui))) = 110 \<and>
   tooltip_y (mousemove \<lparr>pageX = 100, pageY = 200\<rparr>
      (mouseenter ''Europe'' \<lparr>pageX = 100, pageY = 200\<rparr> (tooltip initial_ui))) = 210 \<and>
   render_tooltip (mousemove \<lparr>pageX = 100, pageY = 200\<rparr>
      (mouseenter ''Europe'' \<lparr>pageX = 100, pageY = 200\<rparr> (tooltip initial_ui))) =
     Some \<lparr>top = 220, left = 120, div_text = ''Europe''\<rparr> \<and>
   render_tooltip (mouseenter ''Europe'' \<lparr>pageX = 100, pageY = 200\<rparr> (tooltip initial_ui)) =
     Some \<lparr>top = 210, left = 110, div_text = ''Europe''\<rparr>"
  by (simp add: render_tooltip_def mousemove_def mouseenter_def)

text \<open>
  C10. A pointer move changes only the two position fields of the tooltip state: the
  visible flag and the content are as before, and so is the rest of the component state.
\<close>

theorem mousemove_frame:
  "visible (tooltip (setTooltip (mousemove event) u)) = visible (tooltip u) \<and>
   content (tooltip (setTooltip (mousemove event) u)) = content (tooltip u) \<and>
   tooltip_x (tooltip (setTooltip (mousemove event) u)) = pageX event + 10 \<and>
   tooltip_y (tooltip (setTooltip (mousemove event) u)) = pageY event + 10 \<and>
   setTooltip (mousemove event) u = u\<lparr>tooltip := tooltip (setTooltip (mousemove event) u)\<rparr>"
  by (simp add: setTooltip_def mousemove_def)

text \<open>
  C9, as amended. The colour of a region is the palette entry at the position of its
  label among the distinct labels of the rows that are not excluded, counted from 0 in
  the order of first occurrence and taken modulo 10, the length of the palette; the
  slices carry the colours of the legend. A label that two cycles both show therefore has
  the same colour in both exactly when its two positions agree modulo 10, and two cycles
  whose rows give the same sequence of labels colour every region alike, whatever the
  selected years. The label alone does not fix the colour.
\<close>

theorem color_by_position:
  assumes "totalOf toNumber (transformer toNumber y1 data1) \<noteq> Fin 0"
    and "totalOf toNumber (transformer toNumber y2 data2) \<noteq> Fin 0"
  shows "legend_colors (legendData (useEffect toNumber y1 (Resolved data1) u1)) =
           map (\<lambda>i. (region_labels data1 ! i, schemeCategory10 ! (i mod 10)))
               [0 ..< length (region_labels data1)] \<and>
         slice_colors (svg (useEffect toNumber y1 (Resolved data1) u1)) =
           legend_colors (legendData (useEffect toNumber y1 (Resolved data1) u1)) \<and>
         (\<forall>i<length (region_labels data1). \<forall>j<length (region_labels data2).
            region_labels data1 ! i = region_labels data2 ! j \<longrightarrow>
              (color_of (legend_colors (legendData (useEffect toNumber y1 (Resolved data1) u1)))
                        (region_labels data1 ! i) =
               color_of (legend_colors (legendData (useEffect toNumber y2 (Resolved data2) u2)))
                        (region_labels data2 ! j))
              = (i mod 10 = j mod 10)) \<and>
         (region_labels data1 = region_labels data2 \<longrightarrow>
            legend_colors (legendData (useEffect toNumber y1 (Resolved data1) u1)) =
            legend_colors (legendData (useEffect toNumber y2 (Resolved data2) u2)))"
proof (intro conjI allI impI)
  show "legend_colors (legendData (useEffect toNumber y1 (Resolved data1) u1)) =
           map (\<lambda>i. (region_labels data1 ! i, schemeCategory10 ! (i mod 10)))
               [0 ..< length (region_labels data1)]"
    by (simp only: legend_colors_position [OF assms(1)] zip_map_upt)
  show "slice_colors (svg (useEffect toNumber y1 (Resolved data1) u1)) =
           legend_colors (legendData (useEffect toNumber y1 (Resolved data1) u1))"
    by (rule slice_colors_position [OF assms(1)])
next
  fix i j
  assume i: "i < length (region_labels data1)" and j: "j < length (region_labels data2)"
    and "region_labels data1 ! i = region_labels data2 ! j"
  show "(color_of (legend_colors (legendData (useEffect toNumber y1 (Resolved data1) u1)))
                        (region_labels data1 ! i) =
               color_of (legend_colors (legendData (useEffect toNumber y2 (Resolved data2) u2)))
                        (region_labels data2 ! j))
              = (i mod 10 = j mod 10)"
    by (simp only: color_of_position [OF assms(1) i] color_of_position [OF assms(2) j]
          option.inject palette_eq_iff)
next
  assume "region_labels data1 = region_labels data2"
  then show "legend_colors (legendData (useEffect toNumber y1 (Resolved data1) u1)) =
            legend_colors (legendData (useEffect toNumber y2 (Resolved data2) u2))"
    by (simp only: legend_colors_position [OF assms(1)] legend_colors_position [OF assms(2)])
qed

theorem color_by_position_witness:
  "totalOf stringToNumber (transformer stringToNumber 2020 many_rows) \<noteq> Fin 0 \<and>
   totalOf stringToNumber (transformer stringToNumber 2020 [region_row 11]) \<noteq> Fin 0 \<and>
   (10::nat) < length (region_labels many_rows) \<and>
   (0::nat) < length (region_labels [region_row 11]) \<and>
   region_labels many_rows ! 0 = Str ''Region 1'' \<and>
   region_labels many_rows ! 10 = Str ''Region 11'' \<and>
   region_labels [region_row 11] ! 0 = Str ''Region 11'' \<and>
   legend_colors (legendData (useEffect stringToNumber 2020 (Resolved many_rows) initial_ui)) ! 0 =
     (Str ''Region 1'', ''#1f77b4'') \<and>
   legend_colors (legendData (useEffect stringToNumber 2020 (Resolved many_rows) initial_ui)) ! 10 =
     (Str ''Region 11'', ''#1f77b4'') \<and>
   slice_colors (svg (useEffect stringToNumber 2020 (Resolved many_rows) initial_ui)) ! 10 =
     (Str ''Region 11'', ''#1f77b4'') \<and>
   color_of (legend_colors (legendData (useEffect stringToNumber 2020 (Resolved many_rows) initial_ui)))
     (Str ''Region 11'') =
   color_of (legend_colors (legendData (useEffect stringToNumber 2020 (Resolved [region_row 11]) initial_ui)))
     (Str ''Region 11'')"
proof -
  have t1: "totalOf stringToNumber (transformer stringToNumber 2020 many_rows) \<noteq> Fin 0"
    by (simp add: total_many_rows)
  have t2: "totalOf stringToNumber (transformer stringToNumber 2020 [region_row 11]) \<noteq> Fin 0"
    by (simp add: total_region_11)
  have len: "length (region_labels many_rows) = 31" by (simp add: region_labels_many_rows)
  have l0: "region_labels many_rows ! 0 = Str ''Region 1''"
    by (simp add: region_labels_many_rows digits_1 del: upt_Suc)
  have l10: "region_labels many_rows ! 10 = Str ''Region 11''"
    by (simp add: region_labels_many_rows digits_11 del: upt_Suc)
  have l11: "region_labels [region_row 11] ! 0 = Str ''Region 11''"
    by (simp add: region_labels_region_11)
  note inst = color_by_position [OF t1 t2, of initial_ui initial_ui]
  have a: "legend_colors (legendData (useEffect stringToNumber 2020 (Resolved many_rows) initial_ui)) ! 0 =
     (Str ''Region 1'', ''#1f77b4'')"
    using inst len l0 by (simp add: schemeCategory10_def del: upt_Suc)
  have b: "legend_colors (legendData (useEffect stringToNumber 2020 (Resolved many_rows) initial_ui)) ! 10 =
     (Str ''Region 11'', ''#1f77b4'')"
    using inst len l10 by (simp add: schemeCategory10_def del: upt_Suc)
  have c: "slice_colors (svg (useEffect stringToNumber 2020 (Resolved many_rows) initial_ui)) ! 10 =
     (Str ''Region 11'', ''#1f77b4'')"
    using inst b by simp
  have p1: "10 < length (region_labels many_rows)" by (simp add: len)
  have p2: "0 < length (region_labels [region_row 11])" by (simp add: region_labels_region_11)
  have p3: "region_labels many_rows ! 10 = region_labels [region_row 11] ! 0"
    by (simp only: l10 l11)
  have "color_of (legend_colors (legendData (useEffect stringToNumber 2020 (Resolved many_rows) initial_ui)))
     (region_labels many_rows ! 10) =
   color_of (legend_colors (legendData (useEffect stringToNumber 2020 (Resolved [region_row 11]) initial_ui)))
     (region_labels [region_row 11] ! 0)"
    using inst [THEN conjunct2, THEN conjunct2, THEN conjunct1, rule_format, OF p1 p2 p3] by simp
  then have d: "color_of (legend_colors (legendData (useEffect stringToNumber 2020 (Resolved many_rows) initial_ui)))
     (Str ''Region 11'') =
   color_of (legend_colors (legendData (useEffect stringToNumber 2020 (Resolved [region_row 11]) initial_ui)))
     (Str ''Region 11'')"
    by (simp only: l10 l11)
  show ?thesis using t1 t2 len l0 l10 l11 a b c d by (simp add: region_labels_region_11)
qed

theorem row_order_counterexample:
  "legend_colors (legendData (useEffect stringToNumber 2020 (Resolved europe_first) initial_ui)) =
     [(Str ''Europe'', ''#1f77b4''), (Str ''Asia'', ''#ff7f0e'')] \<and>
   legend_colors (legendData (useEffect stringToNumber 2020 (Resolved asia_first) initial_ui)) =
     [(Str ''Asia'', ''#1f77b4''), (Str ''Europe'', ''#ff7f0e'')]"
proof -
  have t1: "totalOf stringToNumber (transformer stringToNumber 2020 europe_first) \<noteq> Fin 0"
    by (simp add: total_europe_first)
  have t2: "totalOf stringToNumber (transformer stringToNumber 2020 asia_first) \<noteq> Fin 0"
    by (simp add: total_asia_first)
  show ?thesis
    by (simp add: legendData_useEffect [OF t1] legendData_useEffect [OF t2]
          legend_colors_legendInfo transformer_europe_first transformer_asia_first
          colorScale_def schemeCategory10_def)
qed

text \<open>
  C1, as amended. For a selected year from 1950 to 2023, when no region's value is
  negative and the total is a positive finite number, every percentage of the legend is
  a decimal text and the percentages add up to 100 within 0.005 times the number of
  regions: each percentage is rounded to two decimals by itself, and the rounding of the
  floating-point additions, division and multiplication is too small to matter for the
  fewer than \<open>2 ^ 32\<close> elements that an array can hold. The sum is therefore within 0.1
  of 100 when there are at most 20 regions, and can be further off with more.
\<close>

theorem percentages_sum:
  assumes "1950 \<le> selectedYear" and "selectedYear \<le> 2023"
    and "totalOf toNumber (transformer toNumber selectedYear data) = Fin t" and "0 < t"
    and "\<forall>x\<in>set (transformer toNumber selectedYear data).
           nonneg (to_number toNumber (armsTrade x))"
    and "length (transformer toNumber selectedYear data) < 2 ^ 32"
  shows "\<exists>s. percentage_sum (legendData (useEffect toNumber selectedYear (Resolved data) u)) = Some s \<and>
           \<bar>s - 100\<bar> \<le> of_nat (length (legendData (useEffect toNumber selectedYear (Resolved data) u))) / 200 \<and>
           (length (legendData (useEffect toNumber selectedYear (Resolved data) u)) \<le> 20 \<longrightarrow>
              \<bar>s - 100\<bar> \<le> 1 / 10)"
proof -
  let ?rd = "transformer toNumber selectedYear data"
  let ?legend = "legendData (useEffect toNumber selectedYear (Resolved data) u)"
  have nz: "totalOf toNumber ?rd \<noteq> Fin 0" using assms(3,4) by simp
  have legend: "?legend = fst (legendInfo toNumber (Fin t) ?rd)"
    using legendData_useEffect [OF nz, of u] assms(3) by simp
  have len: "length ?legend = length ?rd" by (simp add: legend length_legendInfo)
  have bound: "length ?rd \<le> 4294967296" using assms(6) by simp
  have vals: "\<forall>v\<in>set ?rd. nonneg (to_number toNumber (armsTrade v)) \<and>
                 (\<forall>q. to_number toNumber (armsTrade v) = Fin q \<longrightarrow> is_grid q)"
  proof
    fix v assume v: "v \<in> set ?rd"
    obtain n where "armsTrade v = Number n" "\<forall>q. n = Fin q \<longrightarrow> is_grid q"
      using armsTrade_in_range [OF assms(1,2) v] by blast
    moreover have "nonneg (to_number toNumber (armsTrade v))" using assms(5) v by blast
    ultimately show "nonneg (to_number toNumber (armsTrade v)) \<and>
                 (\<forall>q. to_number toNumber (armsTrade v) = Fin q \<longrightarrow> is_grid q)"
      by simp
  qed
  have fold: "fold (\<lambda>v s. let value = to_number toNumber (armsTrade v)
                 in if truthy_num value then jsadd s value else s) ?rd (Fin 0) = Fin t"
    using assms(3) by (simp add: totalOf_def d3_sum_def)
  from d3_sum_float [OF vals fold bound]
  have fin: "\<forall>v\<in>set ?rd. \<exists>q. to_number toNumber (armsTrade v) = Fin q \<and> 0 \<le> q"
    and close: "\<bar>t - sum_list (map (\<lambda>v. fin_of (to_number toNumber (armsTrade v))) ?rd)\<bar> \<le>
                 of_nat (length ?rd) * sum_list (map (\<lambda>v. fin_of (to_number toNumber (armsTrade v))) ?rd)
                   / 4503599627370496"
    by blast+
  obtain s where s: "percentage_sum ?legend = Some s" "\<bar>s - 100\<bar> \<le> of_nat (length ?legend) / 200"
    using percentage_sum_bound [OF fin assms(4) close bound] legend len by auto
  have "length ?legend \<le> 20 \<longrightarrow> \<bar>s - 100\<bar> \<le> 1 / 10"
  proof
    assume "length ?legend \<le> 20"
    then have "(of_nat (length ?legend) :: rat) \<le> of_nat 20" by (simp only: of_nat_le_iff)
    then have "(of_nat (length ?legend) :: rat) / 200 \<le> 1 / 10" by simp
    with s(2) show "\<bar>s - 100\<bar> \<le> 1 / 10" by linarith
  qed
  with s show ?thesis by blast
qed

theorem percentages_sum_witness:
  "(1950::nat) \<le> 2020 \<and> (2020::nat) \<le> 2023 \<and>
   totalOf stringToNumber (transformer stringToNumber 2020 table) = Fin 8 \<and> (0::rat) < 8 \<and>
   map (\<lambda>x. to_number stringToNumber (armsTrade x)) (transformer stringToNumber 2020 table) =
     [Fin 5, Fin 3] \<and>
   map percentage (legendData (useEffect stringToNumber 2020 (Resolved table) initial_ui)) =
     [TFixed False 6250 2, TFixed False 3750 2] \<and>
   percentage_sum (legendData (useEffect stringToNumber 2020 (Resolved table) initial_ui)) = Some 100"
proof -
  have ps: "percentage_sum (legendData (useEffect stringToNumber 2020 (Resolved table) initial_ui)) = Some 100"
    by (simp add: percentage_sum_map percentages_table_2020)
  have v: "map (\<lambda>x. to_number stringToNumber (armsTrade x)) (transformer stringToNumber 2020 table) =
     [Fin 5, Fin 3]"
    by (simp add: transformer_table_2020)
  show ?thesis
    using percentages_sum [of 2020 stringToNumber table 8 initial_ui] ps v total_table_2020
    by (simp add: percentages_table_2020)
qed

theorem many_regions_counterexample:
  "totalOf stringToNumber (transformer stringToNumber 2020 many_rows) = Fin 31 \<and>
   list_all (\<lambda>x. armsTrade x = Number (Fin 1)) (transformer stringToNumber 2020 many_rows) \<and>
   length (legendData (useEffect stringToNumber 2020 (Resolved many_rows) initial_ui)) = 31 \<and>
   percentage_sum (legendData (useEffect stringToNumber 2020 (Resolved many_rows) initial_ui)) =
     Some (10013 / 100) \<and>
   \<not> \<bar>10013 / 100 - 100\<bar> \<le> (1 / 10 :: rat)"
proof -
  have "length (map percentage (legendData (useEffect stringToNumber 2020 (Resolved many_rows) initial_ui))) = 31"
    by (simp only: percentages_many_rows) simp
  then have len: "length (legendData (useEffect stringToNumber 2020 (Resolved many_rows) initial_ui)) = 31"
    by simp
  have "percentage_sum (legendData (useEffect stringToNumber 2020 (Resolved many_rows) initial_ui)) =
     Some (10013 / 100)"
    by (simp only: percentage_sum_map percentages_many_rows fold_add_text_const) simp
  moreover have "list_all (\<lambda>x. armsTrade x = Number (Fin 1)) (transformer stringToNumber 2020 many_rows)"
    by (simp add: transformer_many_rows list_all_iff del: upt_Suc)
  ultimately show ?thesis using len by (simp add: total_many_rows)
qed

end
